theory Spec2Isabelle
  imports Complex_Main "HOL-Library.Word" "HOL-Library.AList"
begin

section \<open>Z-Mesh: chunked file transfer over a text-only mesh (z\_mesh.py)\<close>

text \<open>
  The development follows \<^verbatim>\<open>src/z_mesh.py\<close>. The class \<^verbatim>\<open>MeshZApp\<close> keeps the sender's and
  the receiver's session in fields of one object; here they are the fields of the record
  \<open>app\<close>, and every method is a function from the object before the call to the object
  after it. What a method does to the outside (frames handed to the radio, log lines,
  progress display, the file written) is recorded in the fields \<open>trace\<close> and \<open>disk\<close>.
  Every \<^verbatim>\<open>try ... except\<close> of the source is a branch of the model: the state reached when
  the exception is raised is kept and the handler's log line is added.

  The radio, the display, the clock and the file system are outside the program. Handing a
  frame to the radio, updating the display and writing a log line are taken to succeed;
  \<^verbatim>\<open>time.time()\<close> is the parameter \<open>now\<close> of the functions that read the clock; the payload
  of a packet is its text. The files that can be read are those of the field \<open>disk\<close>, and
  the field \<open>writable\<close> says at which paths a file can be opened for writing. The watchdog
  thread, the packet callback and the user interface are interleaved at whole method calls.
\<close>

subsection \<open>Library functions the source calls\<close>

type_synonym byte = "8 word"

text \<open>Position of the first occurrence of an element (\<^verbatim>\<open>str.find\<close> on one character).\<close>

fun index_of :: "'a list \<Rightarrow> 'a \<Rightarrow> nat option" where
  "index_of [] x = None"
| "index_of (y # ys) x = (if x = y then Some 0 else map_option Suc (index_of ys x))"

text \<open>\<^verbatim>\<open>parts[i]\<close> for a non-negative literal index: \<open>None\<close> stands for IndexError.\<close>

definition nth_opt :: "'a list \<Rightarrow> nat \<Rightarrow> 'a option" where
  "nth_opt xs i = (if i < length xs then Some (xs ! i) else None)"

text \<open>\<^verbatim>\<open>msg.startswith(p)\<close>.\<close>

definition startswith :: "string \<Rightarrow> string \<Rightarrow> bool" where
  "startswith msg p = (take (length p) msg = p)"

text \<open>\<^verbatim>\<open>msg.split("|")\<close>: the result is never empty, and an empty field is kept.\<close>

fun split_bar :: "string \<Rightarrow> string list" where
  "split_bar [] = [[]]"
| "split_bar (c # cs) =
     (if c = CHR ''|'' then [] # split_bar cs
      else (case split_bar cs of [] \<Rightarrow> [[c]] | p # ps \<Rightarrow> (c # p) # ps))"

text \<open>\<^verbatim>\<open>os.path.basename\<close>: what follows the last slash.\<close>

definition basename :: "string \<Rightarrow> string" where
  "basename p = rev (takeWhile (\<lambda>c. c \<noteq> CHR ''/'') (rev p))"

subsubsection \<open>Decimal integers: \<^verbatim>\<open>str(n)\<close> inside an f-string and \<^verbatim>\<open>int(s)\<close>\<close>

definition dec_digits :: string where
  "dec_digits = ''0123456789''"

definition digit_char :: "nat \<Rightarrow> char" where
  "digit_char d = dec_digits ! d"

fun digits_of :: "nat \<Rightarrow> string" where
  "digits_of n = (if n < 10 then [digit_char n] else digits_of (n div 10) @ [digit_char (n mod 10)])"

declare digits_of.simps [simp del]

definition str_int :: "int \<Rightarrow> string" where
  "str_int i = (if i < 0 then CHR ''-'' # digits_of (nat (- i)) else digits_of (nat i))"

text \<open>
  \<^verbatim>\<open>int(s)\<close> on a text. A text is a list of characters with code points below 256; the
  characters of Unicode beyond them are outside the model. The conversion has two steps.

  A text that is not pure ASCII is first rewritten: a character below 127 stays, a Unicode
  white space (of the characters modelled: U+0085 and U+00A0) becomes a blank, a Unicode
  decimal digit becomes its ASCII digit (there is none below 256), and at any other character
  the text is cut off with a question mark. A pure ASCII text is taken as it is.

  The result is then read as a decimal literal: white space of the C locale (blank, tab,
  line feed, vertical tab, form feed, carriage return) around the literal is skipped, one
  sign is allowed, and the digits may be grouped by single underscores. \<open>None\<close> stands
  for ValueError. The flag of \<open>parse_digits\<close> says that the character before was a digit, so
  that the literal may end or an underscore may follow. The default limit on the number of
  digits (4300) is far beyond the length of a frame and is not modelled.
\<close>

definition is_space :: "char \<Rightarrow> bool" where
  "is_space c = (c \<in> set [CHR '' '', CHR 0x09, CHR 0x0A, CHR 0x0B, CHR 0x0C, CHR 0x0D])"

definition is_ascii :: "string \<Rightarrow> bool" where
  "is_ascii s = list_all (\<lambda>c. (of_char c :: nat) < 128) s"

fun to_ascii_decimal :: "string \<Rightarrow> string" where
  "to_ascii_decimal [] = []"
| "to_ascii_decimal (c # cs) =
     (if (of_char c :: nat) < 127 then c # to_ascii_decimal cs
      else if c = CHR 0x85 \<or> c = CHR 0xA0 then CHR '' '' # to_ascii_decimal cs
      else ''?'')"

definition strip :: "string \<Rightarrow> string" where
  "strip s = rev (dropWhile is_space (rev (dropWhile is_space s)))"

fun parse_digits :: "bool \<Rightarrow> string \<Rightarrow> nat \<Rightarrow> nat option" where
  "parse_digits u [] acc = (if u then Some acc else None)"
| "parse_digits u (c # cs) acc =
     (if c = CHR ''_'' then (if u then parse_digits False cs acc else None)
      else (case index_of dec_digits c of
              None \<Rightarrow> None
            | Some d \<Rightarrow> parse_digits True cs (acc * 10 + d)))"

definition py_int :: "string \<Rightarrow> int option" where
  "py_int s =
     (case strip (if is_ascii s then s else to_ascii_decimal s) of
        [] \<Rightarrow> None
      | c # cs \<Rightarrow>
          if c = CHR ''-'' then map_option (\<lambda>n. - int n) (parse_digits False cs 0)
          else if c = CHR ''+'' then map_option int (parse_digits False cs 0)
          else map_option int (parse_digits False (c # cs) 0))"

subsubsection \<open>Base64: \<^verbatim>\<open>base64.b64encode\<close> and \<^verbatim>\<open>base64.b64decode\<close>\<close>

definition b64_alphabet :: string where
  "b64_alphabet = ''ABCDEFGHIJKLMNOPQRSTUVWXYZabcdefghijklmnopqrstuvwxyz0123456789+/''"

definition b64_char :: "nat \<Rightarrow> char" where
  "b64_char k = b64_alphabet ! k"

fun b64encode :: "byte list \<Rightarrow> string" where
  "b64encode [] = []"
| "b64encode [a] =
     [b64_char (unat a div 4), b64_char ((unat a mod 4) * 16), CHR ''='', CHR ''='']"
| "b64encode [a, b] =
     [b64_char (unat a div 4), b64_char ((unat a mod 4) * 16 + unat b div 16),
      b64_char ((unat b mod 16) * 4), CHR ''='']"
| "b64encode (a # b # c # r) =
     [b64_char (unat a div 4), b64_char ((unat a mod 4) * 16 + unat b div 16),
      b64_char ((unat b mod 16) * 4 + unat c div 64), b64_char (unat c mod 64)]
     @ b64encode r"

text \<open>
  The decoder in its default, non-strict mode. It reads the text once, keeping the position
  \<open>q\<close> in the current group of four, the bits \<open>l\<close> left over from the character before, the
  number \<open>p\<close> of padding characters seen and the bytes produced. A character outside the
  alphabet is skipped; enough padding after two or three characters of a group ends the
  reading; a group left open at the end of the text is an error (\<open>None\<close>).
\<close>

fun a2b_base64 :: "string \<Rightarrow> nat \<Rightarrow> nat \<Rightarrow> nat \<Rightarrow> byte list \<Rightarrow> byte list option" where
  "a2b_base64 [] q l p out = (if q \<noteq> 0 then None else Some out)"
| "a2b_base64 (c # cs) q l p out =
     (if c = CHR ''='' then
        (if 2 \<le> q \<and> 4 \<le> q + (p + 1) then Some out
         else a2b_base64 cs q l (if 2 \<le> q then p + 1 else p) out)
      else (case index_of b64_alphabet c of
              None \<Rightarrow> a2b_base64 cs q l p out
            | Some v \<Rightarrow>
                if q = 0 then a2b_base64 cs 1 v 0 out
                else if q = 1 then a2b_base64 cs 2 (v mod 16) 0 (out @ [of_nat (l * 4 + v div 16)])
                else if q = 2 then a2b_base64 cs 3 (v mod 4) 0 (out @ [of_nat (l * 16 + v div 4)])
                else a2b_base64 cs 0 0 0 (out @ [of_nat (l * 64 + v)])))"

text \<open>A text with a character beyond ASCII is refused before decoding starts.\<close>

definition b64decode :: "string \<Rightarrow> byte list option" where
  "b64decode s =
     (if \<not> is_ascii s then None else a2b_base64 s 0 0 0 [])"

subsection \<open>The application object\<close>

datatype label = Initiating | Receiving | Sending

datatype log_msg =
    LogReq "string option" string
  | LogPacketError
  | LogFileSaved string
  | LogSaveError
  | LogTimeoutRetry int int
  | LogTransferFailed
  | LogTransferComplete
  | LogTargetOrFileMissing
  | LogSendingFile string
  | LogSendError
  | LogChunkError

datatype event =
    SendText string "string option"
  | LogMessage log_msg
  | UpdateProgress int int label
  | HideProgress

record app =
  target_node_id :: "string option"
  selected_file_path :: "string option"
  current_chunk :: int
  total_chunks :: int
  transfer_active :: bool
  last_ack_time :: real
  retry_count :: int
  receiving_file_name :: "string option"
  receiving_total_chunks :: int
  receive_buffer :: "(int \<times> byte list) list"
  home :: string
  disk :: "(string \<times> byte list) list"
  writable :: "string \<Rightarrow> bool"
  trace :: "event list"

definition CHUNK_SIZE :: int where "CHUNK_SIZE = 120"
definition MAX_RETRIES :: int where "MAX_RETRIES = 5"
definition TIMEOUT_SECONDS :: real where "TIMEOUT_SECONDS = 30"

text \<open>
  The object as the class body initialises it, in its surroundings: the home directory, the
  files that are there with their contents, and the paths at which a file can be opened for
  writing (the directory exists, the name is one the system takes, access is allowed).
\<close>

definition initial :: "string \<Rightarrow> (string \<times> byte list) list \<Rightarrow> (string \<Rightarrow> bool) \<Rightarrow> app" where
  "initial h d w =
     \<lparr>target_node_id = None, selected_file_path = None, current_chunk = 0, total_chunks = 0,
      transfer_active = False, last_ack_time = 0, retry_count = 0,
      receiving_file_name = None, receiving_total_chunks = 0, receive_buffer = [],
      home = h, disk = d, writable = w, trace = []\<rparr>"

definition emit :: "event \<Rightarrow> app \<Rightarrow> app" where
  "emit e s = s\<lparr>trace := trace s @ [e]\<rparr>"

definition log_message :: "log_msg \<Rightarrow> app \<Rightarrow> app" where
  "log_message m s = emit (LogMessage m) s"

definition update_progress :: "int \<Rightarrow> int \<Rightarrow> label \<Rightarrow> app \<Rightarrow> app" where
  "update_progress cur tot l s = emit (UpdateProgress cur tot l) s"

definition hide_progress :: "app \<Rightarrow> app" where
  "hide_progress s = emit HideProgress s"

text \<open>\<^verbatim>\<open>self.interface.sendText(text, destinationId=dest)\<close>: the frame is handed to the radio.\<close>

definition sendText :: "string \<Rightarrow> string option \<Rightarrow> app \<Rightarrow> app" where
  "sendText txt dest s = emit (SendText txt dest) s"

subsection \<open>Sender\<close>

text \<open>
  \<^verbatim>\<open>send_next_chunk\<close>: opening the file fails when no path is selected or the file is not
  there, and seeking to a negative offset fails; both end in the \<^verbatim>\<open>except\<close> branch.
  Reading past the end of the file returns fewer bytes, possibly none.
\<close>

definition read_chunk :: "byte list \<Rightarrow> int \<Rightarrow> byte list" where
  "read_chunk content i = take (nat CHUNK_SIZE) (drop (nat ((i - 1) * CHUNK_SIZE)) content)"

definition chunk_frame :: "int \<Rightarrow> byte list \<Rightarrow> string" where
  "chunk_frame i raw_data = ''ZD|'' @ str_int i @ ''|'' @ b64encode raw_data"

definition chunk_error :: "app \<Rightarrow> app" where
  "chunk_error s = (log_message LogChunkError s)\<lparr>transfer_active := False\<rparr>"

definition send_next_chunk :: "app \<Rightarrow> app" where
  "send_next_chunk s =
     (case selected_file_path s of
        None \<Rightarrow> chunk_error s
      | Some path \<Rightarrow>
          (case map_of (disk s) path of
             None \<Rightarrow> chunk_error s
           | Some content \<Rightarrow>
               if (current_chunk s - 1) * CHUNK_SIZE < 0 then chunk_error s
               else sendText (chunk_frame (current_chunk s) (read_chunk content (current_chunk s)))
                      (target_node_id s) s))"

text \<open>
  \<^verbatim>\<open>handle_send_request\<close>, called at time \<open>now\<close>. A target that is \<^verbatim>\<open>None\<close> or the empty
  string is missing. \<^verbatim>\<open>os.path.getsize\<close> raises for a file that is not there, before any field
  is written.
\<close>

definition req_frame :: "string \<Rightarrow> int \<Rightarrow> int \<Rightarrow> string" where
  "req_frame filename filesize tot =
     ''MESHZ_REQ|'' @ filename @ ''|'' @ str_int filesize @ ''|'' @ str_int tot"

definition handle_send_request :: "real \<Rightarrow> app \<Rightarrow> app" where
  "handle_send_request now s =
     (if target_node_id s = None \<or> target_node_id s = Some [] then
        log_message LogTargetOrFileMissing s
      else (case selected_file_path s of
              None \<Rightarrow> log_message LogTargetOrFileMissing s
            | Some path \<Rightarrow>
                (case map_of (disk s) path of
                   None \<Rightarrow> log_message LogSendError s
                 | Some content \<Rightarrow>
                     let filename = basename path;
                         filesize = int (length content);
                         s1 = s\<lparr>total_chunks := (filesize div CHUNK_SIZE) + 1,
                                current_chunk := 0,
                                transfer_active := True,
                                last_ack_time := now\<rparr>;
                         s2 = update_progress 0 (total_chunks s1) Initiating s1;
                         s3 = sendText (req_frame filename filesize (total_chunks s1))
                                (target_node_id s2) s2
                     in log_message (LogSendingFile filename) s3)))"

text \<open>
  \<^verbatim>\<open>handle_timeout\<close> and one round of the loop of \<^verbatim>\<open>start_watchdog\<close>, woken at time \<open>now\<close>.
\<close>

definition handle_timeout :: "app \<Rightarrow> app" where
  "handle_timeout s =
     (if retry_count s < MAX_RETRIES then
        (let s1 = s\<lparr>retry_count := retry_count s + 1\<rparr>;
             s2 = log_message (LogTimeoutRetry (current_chunk s1) (retry_count s1)) s1
         in send_next_chunk s2)
      else hide_progress ((log_message LogTransferFailed s)\<lparr>transfer_active := False\<rparr>))"

definition watch_loop :: "real \<Rightarrow> app \<Rightarrow> app" where
  "watch_loop now s =
     (if transfer_active s \<and> current_chunk s > 0 then
        (if now - last_ack_time s > TIMEOUT_SECONDS then handle_timeout s else s)
      else s)"

subsection \<open>Receiver\<close>

text \<open>
  \<^verbatim>\<open>save_received_file\<close>: the file is opened for writing (created, or emptied), the chunks
  \<open>1, ..., receiving_total_chunks\<close> are written one after the other, and a key that is not in
  the buffer raises KeyError: the loop stops there, what was written stays in the file, and
  the \<^verbatim>\<open>except\<close> branch logs the error. When the file cannot be opened (a name from the
  request with a slash into a directory that is not there, or with a NUL character), the same
  branch logs the error and nothing is written.
\<close>

fun write_chunks :: "(int \<times> byte list) list \<Rightarrow> int list \<Rightarrow> byte list \<Rightarrow> byte list \<times> bool" where
  "write_chunks buf [] written = (written, True)"
| "write_chunks buf (i # is) written =
     (case map_of buf i of
        None \<Rightarrow> (written, False)
      | Some b \<Rightarrow> write_chunks buf is (written @ b))"

definition save_path :: "app \<Rightarrow> string" where
  "save_path s =
     home s @ ''/Downloads'' @ ''/'' @ ''meshz_'' @
       (case receiving_file_name s of None \<Rightarrow> ''None'' | Some name \<Rightarrow> name)"

definition save_received_file :: "app \<Rightarrow> app" where
  "save_received_file s =
     (if \<not> writable s (save_path s) then log_message LogSaveError s
      else
        (let (written, ok) = write_chunks (receive_buffer s) [1 .. receiving_total_chunks s] [];
             s1 = s\<lparr>disk := AList.update (save_path s) written (disk s)\<rparr>
         in if ok then log_message (LogFileSaved (save_path s)) s1
            else log_message LogSaveError s1))"

text \<open>
  A packet as the radio library delivers it: the part \<^verbatim>\<open>decoded\<close> may be absent, and
  \<^verbatim>\<open>packet.get('fromId')\<close> may be \<^verbatim>\<open>None\<close>. The payload is the text of the message.
\<close>

record decoded_part =
  portnum :: string
  payload :: string

record packet =
  decoded :: "decoded_part option"
  fromId :: "string option"

text \<open>The \<^verbatim>\<open>except\<close> branch of \<^verbatim>\<open>on_packet_received\<close>.\<close>

definition packet_error :: "app \<Rightarrow> app" where
  "packet_error s = log_message LogPacketError s"

text \<open>The four branches of \<^verbatim>\<open>on_packet_received\<close>, statement by statement.\<close>

definition on_req :: "string option \<Rightarrow> string \<Rightarrow> app \<Rightarrow> app" where
  "on_req sender msg s =
     (let parts = split_bar msg in
      case nth_opt parts 1 of
        None \<Rightarrow> packet_error s
      | Some name \<Rightarrow>
          let s1 = s\<lparr>receiving_file_name := Some name\<rparr> in
          (case nth_opt parts 3 of
             None \<Rightarrow> packet_error s1
           | Some t \<Rightarrow>
               (case py_int t of
                  None \<Rightarrow> packet_error s1
                | Some n \<Rightarrow>
                    let s2 = s1\<lparr>receiving_total_chunks := n, receive_buffer := []\<rparr>;
                        s3 = log_message (LogReq sender name) s2;
                        s4 = update_progress 0 (receiving_total_chunks s3) Receiving s3
                    in sendText ''MESHZ_ACK'' sender s4)))"

definition gocont_frame :: "int \<Rightarrow> string" where
  "gocont_frame c_num = ''MESHZ_GOCONT|'' @ str_int c_num"

definition on_data :: "string option \<Rightarrow> string \<Rightarrow> app \<Rightarrow> app" where
  "on_data sender msg s =
     (let parts = split_bar msg in
      case nth_opt parts 1 of
        None \<Rightarrow> packet_error s
      | Some a \<Rightarrow>
          (case py_int a of
             None \<Rightarrow> packet_error s
           | Some c_num \<Rightarrow>
               (case nth_opt parts 2 of
                  None \<Rightarrow> packet_error s
                | Some c_data \<Rightarrow>
                    (case b64decode c_data of
                       None \<Rightarrow> packet_error s
                     | Some raw \<Rightarrow>
                         let s1 = s\<lparr>receive_buffer := AList.update c_num raw (receive_buffer s)\<rparr>;
                             s2 = update_progress (int (length (receive_buffer s1)))
                                    (receiving_total_chunks s1) Receiving s1;
                             s3 = sendText (gocont_frame c_num) sender s2
                         in if int (length (receive_buffer s3)) = receiving_total_chunks s3
                            then hide_progress (save_received_file s3)
                            else s3))))"

definition on_ack :: "real \<Rightarrow> string option \<Rightarrow> app \<Rightarrow> app" where
  "on_ack now sender s =
     (if transfer_active s \<and> sender = target_node_id s then
        (let s1 = s\<lparr>current_chunk := 1, last_ack_time := now, retry_count := 0\<rparr>;
             s2 = update_progress 1 (total_chunks s1) Sending s1
         in send_next_chunk s2)
      else s)"

definition on_gocont :: "real \<Rightarrow> string option \<Rightarrow> string \<Rightarrow> app \<Rightarrow> app" where
  "on_gocont now sender msg s =
     (if transfer_active s \<and> sender = target_node_id s then
        (case nth_opt (split_bar msg) 1 of
           None \<Rightarrow> packet_error s
         | Some a \<Rightarrow>
             (case py_int a of
                None \<Rightarrow> packet_error s
              | Some ack_num \<Rightarrow>
                  if ack_num = current_chunk s then
                    (let s1 = s\<lparr>last_ack_time := now, retry_count := 0,
                                  current_chunk := current_chunk s + 1\<rparr>
                     in if current_chunk s1 \<le> total_chunks s1 then
                          send_next_chunk
                            (update_progress (current_chunk s1) (total_chunks s1) Sending s1)
                        else hide_progress
                               (log_message LogTransferComplete (s1\<lparr>transfer_active := False\<rparr>)))
                  else s))
      else s)"

text \<open>\<^verbatim>\<open>on_packet_received\<close>, called at time \<open>now\<close>; the branches are tried in the source's order.\<close>

definition on_packet_received :: "real \<Rightarrow> packet \<Rightarrow> app \<Rightarrow> app" where
  "on_packet_received now pkt s =
     (case decoded pkt of
        None \<Rightarrow> s
      | Some d \<Rightarrow>
          if portnum d = ''TEXT_MESSAGE_APP'' then
            (let sender = fromId pkt; msg = payload d in
             if startswith msg ''MESHZ_REQ'' then on_req sender msg s
             else if startswith msg ''ZD|'' then on_data sender msg s
             else if msg = ''MESHZ_ACK'' then on_ack now sender s
             else if startswith msg ''MESHZ_GOCONT|'' then on_gocont now sender msg s
             else s)
          else s)"

text \<open>A text message \<open>msg\<close> whose \<^verbatim>\<open>fromId\<close> is \<open>sender\<close>.\<close>

definition text_packet :: "string option \<Rightarrow> string \<Rightarrow> packet" where
  "text_packet sender msg =
     \<lparr>decoded = Some \<lparr>portnum = ''TEXT_MESSAGE_APP'', payload = msg\<rparr>, fromId = sender\<rparr>"

subsection \<open>Derived notions and the sessions used in the examples\<close>

text \<open>
  The surroundings of the examples: the home directory is \<open>/home/u\<close>, and its Downloads
  directory has no subdirectories, so that a file can be opened for writing exactly when it
  lies directly in it and its name has no NUL character.
\<close>

definition flat_downloads :: "string \<Rightarrow> bool" where
  "flat_downloads p =
     (startswith p ''/home/u/Downloads/'' \<and> CHR ''/'' \<notin> set (drop 18 p) \<and> CHR 0x00 \<notin> set p)"

text \<open>
  A sender whose user has picked the peer \<open>!a1\<close> and the file \<open>/home/u/f.bin\<close> holding the
  bytes \<open>F\<close>, before SEND is pressed.
\<close>

definition picked :: "byte list \<Rightarrow> app" where
  "picked F =
     (initial ''/home/u'' [(''/home/u/f.bin'', F)] flat_downloads)
       \<lparr>target_node_id := Some ''!a1'', selected_file_path := Some ''/home/u/f.bin''\<rparr>"

text \<open>The frames handed to the radio so far, in order, each with its destination.\<close>

fun frames_of :: "event list \<Rightarrow> (string \<times> string option) list" where
  "frames_of [] = []"
| "frames_of (SendText t d # es) = (t, d) # frames_of es"
| "frames_of (e # es) = frames_of es"

definition sent :: "app \<Rightarrow> (string \<times> string option) list" where
  "sent s = frames_of (trace s)"

text \<open>The selected file is there and holds the bytes \<open>F\<close>.\<close>

definition readable :: "app \<Rightarrow> byte list \<Rightarrow> bool" where
  "readable s F =
     (case selected_file_path s of
        None \<Rightarrow> False
      | Some path \<Rightarrow> map_of (disk s) path = Some F)"

text \<open>
  The sender of \<open>picked F\<close> after SEND was pressed at time 0 and the peer's \<^verbatim>\<open>MESHZ_ACK\<close>
  arrived at time 0: chunk 1 is on its way.
\<close>

definition started :: "byte list \<Rightarrow> app" where
  "started F =
     on_packet_received 0 (text_packet (Some ''!a1'') ''MESHZ_ACK'') (handle_send_request 0 (picked F))"

text \<open>The index a \<^verbatim>\<open>MESHZ_GOCONT|...\<close> frame carries: \<^verbatim>\<open>int(msg.split("|")[1])\<close>.\<close>

definition gocont_index :: "string \<Rightarrow> int option" where
  "gocont_index msg = (case nth_opt (split_bar msg) 1 of None \<Rightarrow> None | Some a \<Rightarrow> py_int a)"

text \<open>
  What the \<^verbatim>\<open>ZD|...\<close> branch reads from a frame before it touches the buffer: the index
  \<^verbatim>\<open>int(parts[1])\<close> and the bytes \<^verbatim>\<open>b64decode(parts[2])\<close>; \<open>None\<close> when one of the steps raises.
\<close>

definition parse_data :: "string \<Rightarrow> (int \<times> byte list) option" where
  "parse_data msg =
     (case nth_opt (split_bar msg) 1 of
        None \<Rightarrow> None
      | Some a \<Rightarrow>
          (case py_int a of
             None \<Rightarrow> None
           | Some c_num \<Rightarrow>
               (case nth_opt (split_bar msg) 2 of
                  None \<Rightarrow> None
                | Some c_data \<Rightarrow>
                    (case b64decode c_data of
                       None \<Rightarrow> None
                     | Some raw \<Rightarrow> Some (c_num, raw)))))"

text \<open>
  A receiver with home directory \<open>/home/u\<close> and an empty disk that has handled the text
  messages \<open>msgs\<close>, all from the peer \<open>!b2\<close>.
\<close>

definition received :: "string list \<Rightarrow> app" where
  "received msgs =
     fold (\<lambda>m. on_packet_received 0 (text_packet (Some ''!b2'') m)) msgs (initial ''/home/u'' [] flat_downloads)"

text \<open>
  The receiver handles the frame that \<^verbatim>\<open>send_next_chunk\<close> builds for chunk \<open>i\<close> of a file
  holding the bytes \<open>F\<close>.
\<close>

definition deliver :: "real \<Rightarrow> string option \<Rightarrow> byte list \<Rightarrow> int \<Rightarrow> app \<Rightarrow> app" where
  "deliver now sender F i s =
     on_packet_received now (text_packet sender (chunk_frame i (read_chunk F i))) s"

text \<open>The session of \<open>started F\<close> after the selected file has been deleted.\<close>

definition file_lost :: "byte list \<Rightarrow> app" where
  "file_lost F = (started F)\<lparr>disk := []\<rparr>"

section \<open>Properties\<close>

subsection \<open>Number of chunks\<close>

text \<open>
  C1. Initiating a transfer of a file of \<open>S\<close> bytes sets \<open>total_chunks\<close> to \<open>S div 120 + 1\<close>.
  For a size that is a multiple of 120 this is one more than \<open>ceil (S / 120)\<close>: a file of 240
  bytes is announced with 3 chunks, where the ceiling is 2.
\<close>

theorem C1_total_chunks_exact_multiple:
  "total_chunks (handle_send_request now (picked F)) = int (length F) div 120 + 1 \<and>
   total_chunks (handle_send_request now (picked (replicate 240 0))) = 3 \<and>
   \<lceil>(240 :: real) / 120\<rceil> = 2"
  by (simp add: handle_send_request_def picked_def initial_def CHUNK_SIZE_def Let_def
      update_progress_def sendText_def log_message_def emit_def)

subsection \<open>Watchdog and retries\<close>

lemma frames_of_append: "frames_of (xs @ ys) = frames_of xs @ frames_of ys"
  by (induction xs rule: frames_of.induct) simp_all

lemma send_next_chunk_readable:
  assumes "readable s F" "1 \<le> current_chunk s"
  shows "send_next_chunk s =
     s\<lparr>trace := trace s @ [SendText (chunk_frame (current_chunk s) (read_chunk F (current_chunk s))) (target_node_id s)]\<rparr>"
  using assms
  by (auto simp: readable_def send_next_chunk_def sendText_def emit_def CHUNK_SIZE_def split: option.splits)

lemma handle_timeout_retry:
  assumes "readable s F" "1 \<le> current_chunk s" "retry_count s < MAX_RETRIES"
  shows "handle_timeout s =
     s\<lparr>retry_count := retry_count s + 1,
       trace := trace s @ [LogMessage (LogTimeoutRetry (current_chunk s) (retry_count s + 1)),
                           SendText (chunk_frame (current_chunk s) (read_chunk F (current_chunk s))) (target_node_id s)]\<rparr>"
proof -
  let ?s2 = "log_message (LogTimeoutRetry (current_chunk s) (retry_count s + 1)) (s\<lparr>retry_count := retry_count s + 1\<rparr>)"
  have r: "readable ?s2 F" "1 \<le> current_chunk ?s2"
    using assms by (simp_all add: readable_def log_message_def emit_def split: option.splits)
  have "handle_timeout s = send_next_chunk ?s2"
    using assms(3) by (simp add: handle_timeout_def Let_def)
  also have "\<dots> = ?s2\<lparr>trace := trace ?s2 @ [SendText (chunk_frame (current_chunk ?s2) (read_chunk F (current_chunk ?s2))) (target_node_id ?s2)]\<rparr>"
    by (rule send_next_chunk_readable [OF r])
  finally show ?thesis by (simp add: log_message_def emit_def)
qed

lemma handle_timeout_give_up:
  assumes "\<not> retry_count s < MAX_RETRIES"
  shows "handle_timeout s =
     s\<lparr>transfer_active := False, trace := trace s @ [LogMessage LogTransferFailed, HideProgress]\<rparr>"
  using assms by (simp add: handle_timeout_def hide_progress_def log_message_def emit_def)

lemma retries:
  assumes "readable s F" "1 \<le> current_chunk s" "retry_count s + int k \<le> MAX_RETRIES"
  shows "(handle_timeout ^^ k) s =
     s\<lparr>retry_count := retry_count s + int k,
       trace := trace s @ concat (map (\<lambda>j. [LogMessage (LogTimeoutRetry (current_chunk s) (retry_count s + int j)),
                           SendText (chunk_frame (current_chunk s) (read_chunk F (current_chunk s))) (target_node_id s)]) [1..<Suc k])\<rparr>"
  using assms
proof (induction k)
  case 0
  then show ?case by simp
next
  case (Suc k)
  let ?m = "(handle_timeout ^^ k) s"
  have ih: "?m = s\<lparr>retry_count := retry_count s + int k,
       trace := trace s @ concat (map (\<lambda>j. [LogMessage (LogTimeoutRetry (current_chunk s) (retry_count s + int j)),
                           SendText (chunk_frame (current_chunk s) (read_chunk F (current_chunk s))) (target_node_id s)]) [1..<Suc k])\<rparr>"
    using Suc by simp
  have r: "readable ?m F" "1 \<le> current_chunk ?m" "retry_count ?m < MAX_RETRIES"
    using Suc.prems by (simp_all add: ih readable_def split: option.splits)
  have "(handle_timeout ^^ Suc k) s = handle_timeout ?m" by simp
  also note handle_timeout_retry [OF r]
  finally show ?case by (simp add: ih add.assoc)
qed

lemma readable_handle_timeout_pow:
  assumes "readable s F" "1 \<le> current_chunk s" "retry_count s + int k \<le> MAX_RETRIES"
  shows "readable ((handle_timeout ^^ k) s) F"
    and "current_chunk ((handle_timeout ^^ k) s) = current_chunk s"
    and "transfer_active ((handle_timeout ^^ k) s) = transfer_active s"
    and "last_ack_time ((handle_timeout ^^ k) s) = last_ack_time s"
    and "retry_count ((handle_timeout ^^ k) s) = retry_count s + int k"
    and "sent ((handle_timeout ^^ k) s) =
           sent s @ replicate k (chunk_frame (current_chunk s) (read_chunk F (current_chunk s)), target_node_id s)"
proof -
  note eq = retries [OF assms]
  show "readable ((handle_timeout ^^ k) s) F"
    using assms(1) by (simp add: eq readable_def split: option.splits)
  show "current_chunk ((handle_timeout ^^ k) s) = current_chunk s" by (simp add: eq)
  show "transfer_active ((handle_timeout ^^ k) s) = transfer_active s" by (simp add: eq)
  show "last_ack_time ((handle_timeout ^^ k) s) = last_ack_time s" by (simp add: eq)
  show "retry_count ((handle_timeout ^^ k) s) = retry_count s + int k" by (simp add: eq)
  have "frames_of (concat (map (\<lambda>j. [LogMessage (LogTimeoutRetry c (r + int j)), SendText f d]) js))
          = replicate (length js) (f, d)" for c r f d and js :: "nat list"
    by (induction js) simp_all
  then show "sent ((handle_timeout ^^ k) s) =
           sent s @ replicate k (chunk_frame (current_chunk s) (read_chunk F (current_chunk s)), target_node_id s)"
    by (simp add: eq sent_def frames_of_append)
qed

lemma watch_loop_fires:
  assumes "transfer_active s" "0 < current_chunk s" "now - last_ack_time s > TIMEOUT_SECONDS"
  shows "watch_loop now s = handle_timeout s"
  using assms by (simp add: watch_loop_def)

lemma watch_loop_inactive: "\<not> transfer_active s \<Longrightarrow> watch_loop now s = s"
  by (simp add: watch_loop_def)

lemma ticks_fire:
  assumes "readable s F" "1 \<le> current_chunk s" "transfer_active s"
    and "\<forall>t \<in> set ts. t - last_ack_time s > TIMEOUT_SECONDS"
    and "retry_count s + int (length ts) \<le> MAX_RETRIES"
  shows "fold watch_loop ts s = (handle_timeout ^^ length ts) s"
  using assms
proof (induction ts arbitrary: s)
  case Nil
  then show ?case by simp
next
  case (Cons t ts)
  have one: "retry_count s + int 1 \<le> MAX_RETRIES" using Cons.prems(5) by simp
  note h = readable_handle_timeout_pow [OF Cons.prems(1,2) one, simplified]
  have w: "watch_loop t s = handle_timeout s"
    using Cons.prems by (intro watch_loop_fires) simp_all
  have "fold watch_loop ts (handle_timeout s) = (handle_timeout ^^ length ts) (handle_timeout s)"
  proof (rule Cons.IH)
    show "readable (handle_timeout s) F" by (rule h)
    show "1 \<le> current_chunk (handle_timeout s)" using Cons.prems(2) h by simp
    show "transfer_active (handle_timeout s)" using Cons.prems(3) h by simp
    show "\<forall>t\<in>set ts. TIMEOUT_SECONDS < t - last_ack_time (handle_timeout s)"
      using Cons.prems(4) h by simp
    show "retry_count (handle_timeout s) + int (length ts) \<le> MAX_RETRIES"
      using Cons.prems(5) h by simp
  qed
  then show ?case by (simp add: w funpow_swap1)
qed

lemma started_fields:
  "readable (started F) F" "current_chunk (started F) = 1" "transfer_active (started F)"
  "retry_count (started F) = 0" "last_ack_time (started F) = 0"
  "target_node_id (started F) = Some ''!a1''"
  "total_chunks (started F) = int (length F) div 120 + 1"
  "sent (started F) = [(req_frame ''f.bin'' (int (length F)) (int (length F) div 120 + 1), Some ''!a1''),
                       (chunk_frame 1 (read_chunk F 1), Some ''!a1'')]"
  by (simp_all add: started_def on_packet_received_def text_packet_def startswith_def on_ack_def
      handle_send_request_def picked_def initial_def Let_def update_progress_def sendText_def
      log_message_def emit_def send_next_chunk_def CHUNK_SIZE_def readable_def sent_def basename_def)

lemma send_next_chunk_unreadable:
  assumes "selected_file_path s = Some path" and "map_of (disk s) path = None"
  shows "send_next_chunk s = chunk_error s"
  using assms by (simp add: send_next_chunk_def)

lemma last_ack_time_send_next_chunk [simp]:
  "last_ack_time (send_next_chunk s) = last_ack_time s"
  by (simp add: send_next_chunk_def chunk_error_def sendText_def log_message_def emit_def
      split: option.splits)

lemma last_ack_time_watch_loop: "last_ack_time (watch_loop now s) = last_ack_time s"
  by (simp add: watch_loop_def handle_timeout_def hide_progress_def log_message_def emit_def
      Let_def)

lemma file_lost_fields:
  "transfer_active (file_lost F)" "current_chunk (file_lost F) = 1"
  "retry_count (file_lost F) = 0" "last_ack_time (file_lost F) = 0"
  "selected_file_path (file_lost F) = Some ''/home/u/f.bin''" "disk (file_lost F) = []"
  "sent (file_lost F) = sent (started F)"
proof -
  have "selected_file_path (started F) = Some ''/home/u/f.bin''"
    by (simp add: started_def on_packet_received_def text_packet_def startswith_def on_ack_def
        handle_send_request_def picked_def initial_def Let_def update_progress_def sendText_def
        log_message_def emit_def send_next_chunk_def CHUNK_SIZE_def)
  then show "selected_file_path (file_lost F) = Some ''/home/u/f.bin''"
    by (simp add: file_lost_def)
  show "transfer_active (file_lost F)" "current_chunk (file_lost F) = 1"
    "retry_count (file_lost F) = 0" "last_ack_time (file_lost F) = 0" "disk (file_lost F) = []"
    "sent (file_lost F) = sent (started F)"
    by (simp_all add: file_lost_def started_fields sent_def)
qed

lemma watch_loop_file_lost:
  "watch_loop 31 (file_lost F) =
     (file_lost F)\<lparr>retry_count := 1, transfer_active := False,
        trace := trace (file_lost F) @ [LogMessage (LogTimeoutRetry 1 1), LogMessage LogChunkError]\<rparr>"
proof -
  let ?s = "file_lost F"
  let ?s2 = "log_message (LogTimeoutRetry 1 1) (?s\<lparr>retry_count := 1\<rparr>)"
  have w: "watch_loop 31 ?s = handle_timeout ?s"
    by (rule watch_loop_fires) (simp_all add: file_lost_fields TIMEOUT_SECONDS_def)
  have "handle_timeout ?s = send_next_chunk ?s2"
    by (simp add: handle_timeout_def file_lost_fields MAX_RETRIES_def Let_def)
  also have "\<dots> = chunk_error ?s2"
    by (rule send_next_chunk_unreadable [of _ "''/home/u/f.bin''"])
       (simp_all add: log_message_def emit_def file_lost_fields)
  finally show ?thesis
    by (simp add: w chunk_error_def log_message_def emit_def)
qed

text \<open>
  C9 (amended). When the watchdog fires on an active session with
  \<open>retry_count < MAX_RETRIES\<close> and the selected file is still there with the bytes it had at
  the original send, it adds one to \<open>retry_count\<close>, leaves \<open>current_chunk\<close> as it is, and
  sends one frame: the frame that \<open>send_next_chunk\<close> sends from any state with the same file,
  chunk index and target, that is, the original send of this chunk (same index, same payload
  bytes). No round of the watchdog, in any state, writes \<open>last_ack_time\<close>; besides the
  acknowledgments, it is written when SEND starts a transfer.
\<close>

theorem C9_retry_resends_same_chunk:
  assumes "transfer_active s" and "0 < current_chunk s"
    and "now - last_ack_time s > TIMEOUT_SECONDS" and "retry_count s < MAX_RETRIES"
    and "readable s F"
    and "selected_file_path s0 = selected_file_path s" and "disk s0 = disk s"
    and "current_chunk s0 = current_chunk s" and "target_node_id s0 = target_node_id s"
  shows "retry_count (watch_loop now s) = retry_count s + 1 \<and>
         last_ack_time (watch_loop now s) = last_ack_time s \<and>
         current_chunk (watch_loop now s) = current_chunk s \<and>
         transfer_active (watch_loop now s) \<and>
         (\<exists>frame. sent (send_next_chunk s0) = sent s0 @ [frame] \<and>
                  sent (watch_loop now s) = sent s @ [frame] \<and>
                  frame = (chunk_frame (current_chunk s) (read_chunk F (current_chunk s)),
                           target_node_id s)) \<and>
         last_ack_time (watch_loop now1 s1) = last_ack_time s1 \<and>
         last_ack_time (handle_send_request now1 (picked F1)) = now1"
proof -
  have c: "1 \<le> current_chunk s" using assms(2) by simp
  have w: "watch_loop now s = handle_timeout s"
    using assms(1-3) by (rule watch_loop_fires)
  note t = handle_timeout_retry [OF assms(5) c assms(4)]
  have r0: "readable s0 F" using assms(5,6,7) by (simp add: readable_def split: option.splits)
  have c0: "1 \<le> current_chunk s0" using c assms(8) by simp
  note o = send_next_chunk_readable [OF r0 c0]
  have 1: "sent (send_next_chunk s0) =
      sent s0 @ [(chunk_frame (current_chunk s) (read_chunk F (current_chunk s)), target_node_id s)]"
    using assms(8,9) by (simp add: o sent_def frames_of_append)
  have 2: "sent (watch_loop now s) =
      sent s @ [(chunk_frame (current_chunk s) (read_chunk F (current_chunk s)), target_node_id s)]"
    by (simp add: w t sent_def frames_of_append)
  have 3: "last_ack_time (handle_send_request now1 (picked F1)) = now1"
    by (simp add: handle_send_request_def picked_def initial_def Let_def update_progress_def
        sendText_def log_message_def emit_def)
  show ?thesis using assms(1) 1 2 3 by (simp add: w t last_ack_time_watch_loop)
qed

theorem C9_retry_resends_same_chunk_witness:
  "retry_count (watch_loop 31 (started [65, 66, 67])) = 1 \<and>
   last_ack_time (watch_loop 31 (started [65, 66, 67])) = 0 \<and>
   current_chunk (watch_loop 31 (started [65, 66, 67])) = 1 \<and>
   sent (watch_loop 31 (started [65, 66, 67])) =
     sent (started [65, 66, 67]) @ [(''ZD|1|QUJD'', Some ''!a1'')]"
proof -
  let ?s = "started [65, 66, 67]"
  have f: "chunk_frame 1 (read_chunk [65, 66, 67] 1) = ''ZD|1|QUJD''"
    by (simp add: chunk_frame_def read_chunk_def CHUNK_SIZE_def str_int_def digits_of.simps
        digit_char_def dec_digits_def b64_char_def b64_alphabet_def)
  from C9_retry_resends_same_chunk [of ?s 31 "[65, 66, 67]" ?s]
  show ?thesis
    by (simp add: started_fields TIMEOUT_SECONDS_def MAX_RETRIES_def f)
qed

text \<open>
  C9 as stated fails. When the selected file has been deleted since the original send, the
  watchdog fires with \<open>retry_count < MAX_RETRIES\<close> and nothing is resent: the read fails and
  the session ends. And \<open>last_ack_time\<close> is written without any acknowledgment, when SEND
  starts a transfer.
\<close>

theorem C9_file_lost_counterexample:
  "transfer_active (file_lost [65, 66, 67]) \<and>
   0 < current_chunk (file_lost [65, 66, 67]) \<and>
   retry_count (file_lost [65, 66, 67]) < MAX_RETRIES \<and>
   31 - last_ack_time (file_lost [65, 66, 67]) > TIMEOUT_SECONDS \<and>
   sent (watch_loop 31 (file_lost [65, 66, 67])) = sent (file_lost [65, 66, 67]) \<and>
   \<not> transfer_active (watch_loop 31 (file_lost [65, 66, 67])) \<and>
   last_ack_time (picked [65, 66, 67]) = 0 \<and>
   last_ack_time (handle_send_request 7 (picked [65, 66, 67])) = 7"
proof -
  have a: "sent (watch_loop 31 (file_lost [65, 66, 67])) = sent (file_lost [65, 66, 67])"
    "\<not> transfer_active (watch_loop 31 (file_lost [65, 66, 67]))"
    by (simp_all add: watch_loop_file_lost sent_def frames_of_append)
  have b: "last_ack_time (picked [65, 66, 67]) = 0"
    "last_ack_time (handle_send_request 7 (picked [65, 66, 67])) = 7"
    by (simp_all add: handle_send_request_def picked_def initial_def Let_def update_progress_def
        sendText_def log_message_def emit_def)
  show ?thesis
    using a b by (simp add: file_lost_fields MAX_RETRIES_def TIMEOUT_SECONDS_def)
qed

lemma sixth_timeout:
  assumes "readable s F" "1 \<le> current_chunk s" "retry_count s = 0"
  shows "(handle_timeout ^^ 6) s =
     ((handle_timeout ^^ 5) s)\<lparr>transfer_active := False,
        trace := trace ((handle_timeout ^^ 5) s) @ [LogMessage LogTransferFailed, HideProgress]\<rparr>"
proof -
  have five: "retry_count s + int 5 \<le> MAX_RETRIES" using assms(3) by (simp add: MAX_RETRIES_def)
  have "\<not> retry_count ((handle_timeout ^^ 5) s) < MAX_RETRIES"
    using assms(3) by (simp add: readable_handle_timeout_pow(5) [OF assms(1,2) five] MAX_RETRIES_def)
  from handle_timeout_give_up [OF this]
  show ?thesis by (simp add: eval_nat_numeral)
qed

text \<open>
  C4 (amended). For an active sending session with a readable file and \<open>retry_count = 0\<close>
  that receives no acknowledgment: each of the first \<open>MAX_RETRIES = 5\<close> consecutive timeout
  expiries resends the chunk and leaves the session active; the sixth expiry sets
  \<open>transfer_active\<close> to false, logs the failure and sends nothing, and from then on the
  watchdog does nothing.
\<close>

theorem C4_retry_bound:
  assumes "readable s F" and "1 \<le> current_chunk s" and "transfer_active s"
    and "retry_count s = 0"
  shows "(\<forall>k \<le> 5. transfer_active ((handle_timeout ^^ k) s) \<and>
                 retry_count ((handle_timeout ^^ k) s) = int k \<and>
                 sent ((handle_timeout ^^ k) s) =
                   sent s @ replicate k (chunk_frame (current_chunk s) (read_chunk F (current_chunk s)),
                                          target_node_id s)) \<and>
         \<not> transfer_active ((handle_timeout ^^ 6) s) \<and>
         trace ((handle_timeout ^^ 6) s) =
           trace ((handle_timeout ^^ 5) s) @ [LogMessage LogTransferFailed, HideProgress] \<and>
         sent ((handle_timeout ^^ 6) s) = sent ((handle_timeout ^^ 5) s) \<and>
         (\<forall>now. watch_loop now ((handle_timeout ^^ 6) s) = (handle_timeout ^^ 6) s)"
proof -
  have a: "transfer_active ((handle_timeout ^^ k) s) \<and>
           retry_count ((handle_timeout ^^ k) s) = int k \<and>
           sent ((handle_timeout ^^ k) s) =
             sent s @ replicate k (chunk_frame (current_chunk s) (read_chunk F (current_chunk s)),
                                    target_node_id s)" if "k \<le> 5" for k
  proof -
    have le: "retry_count s + int k \<le> MAX_RETRIES"
      using that assms(4) by (simp add: MAX_RETRIES_def)
    show ?thesis
      using readable_handle_timeout_pow(3,5,6) [OF assms(1,2) le] assms(3,4) by simp
  qed
  note six = sixth_timeout [OF assms(1,2,4)]
  have b: "\<not> transfer_active ((handle_timeout ^^ 6) s)" by (simp add: six)
  have c: "trace ((handle_timeout ^^ 6) s) =
           trace ((handle_timeout ^^ 5) s) @ [LogMessage LogTransferFailed, HideProgress]"
    by (simp add: six)
  have d: "sent ((handle_timeout ^^ 6) s) = sent ((handle_timeout ^^ 5) s)"
    by (simp add: sent_def c frames_of_append)
  have e: "watch_loop now ((handle_timeout ^^ 6) s) = (handle_timeout ^^ 6) s" for now
    using b by (rule watch_loop_inactive)
  show ?thesis using a b c d e by blast
qed

theorem C4_retry_bound_witness:
  "transfer_active ((handle_timeout ^^ 5) (started [65, 66, 67])) \<and>
   retry_count ((handle_timeout ^^ 5) (started [65, 66, 67])) = 5 \<and>
   \<not> transfer_active ((handle_timeout ^^ 6) (started [65, 66, 67])) \<and>
   sent ((handle_timeout ^^ 6) (started [65, 66, 67])) =
     sent ((handle_timeout ^^ 5) (started [65, 66, 67]))"
  using C4_retry_bound [of "started [65, 66, 67]" "[65, 66, 67]"]
  by (simp add: started_fields)

text \<open>
  C4 as stated fails: after exactly five consecutive timeout expiries the session is still
  active (five retries have been sent); the failure comes with the sixth.
\<close>

theorem C4_failed_after_five_counterexample:
  "transfer_active ((handle_timeout ^^ 5) (started [65, 66, 67])) \<and>
   retry_count (started [65, 66, 67]) = 0 \<and>
   retry_count ((handle_timeout ^^ 5) (started [65, 66, 67])) = 5"
proof -
  have le: "retry_count (started [65, 66, 67]) + int 5 \<le> MAX_RETRIES"
    by (simp add: started_fields MAX_RETRIES_def)
  have c: "1 \<le> current_chunk (started [65, 66, 67])" by (simp add: started_fields)
  show ?thesis
    using readable_handle_timeout_pow(3,5) [OF started_fields(1) c le]
    by (simp add: started_fields)
qed

text \<open>
  C10 (amended). A retry leaves \<open>last_ack_time\<close> as it is. So once a tick at time \<open>t0\<close>
  finds the timeout exceeded, no acknowledgment arrives and the selected file stays readable,
  every later tick (the clock not going back) fires as well: each of the first five ticks
  puts the current chunk on the air again, and the sixth consecutive tick ends the session
  as failed without sending.
\<close>

theorem C10_retries_on_consecutive_ticks:
  assumes "readable s F" and "1 \<le> current_chunk s" and "transfer_active s"
    and "retry_count s = 0"
    and "t0 - last_ack_time s > TIMEOUT_SECONDS"
    and "\<forall>t \<in> set ts. t0 \<le> t"
    and "length ts = 5"
  shows "(\<forall>k \<le> 5. fold watch_loop (take k (t0 # ts)) s = (handle_timeout ^^ k) s \<and>
                 transfer_active (fold watch_loop (take k (t0 # ts)) s) \<and>
                 retry_count (fold watch_loop (take k (t0 # ts)) s) = int k \<and>
                 sent (fold watch_loop (take k (t0 # ts)) s) =
                   sent s @ replicate k (chunk_frame (current_chunk s) (read_chunk F (current_chunk s)),
                                          target_node_id s)) \<and>
         fold watch_loop (t0 # ts) s = (handle_timeout ^^ 6) s \<and>
         \<not> transfer_active (fold watch_loop (t0 # ts) s) \<and>
         sent (fold watch_loop (t0 # ts) s) =
           sent s @ replicate 5 (chunk_frame (current_chunk s) (read_chunk F (current_chunk s)),
                                  target_node_id s) \<and>
         trace (fold watch_loop (t0 # ts) s) =
           trace (fold watch_loop (take 5 (t0 # ts)) s) @ [LogMessage LogTransferFailed, HideProgress]"
proof -
  let ?frame = "(chunk_frame (current_chunk s) (read_chunk F (current_chunk s)), target_node_id s)"
  have late: "\<forall>t \<in> set (t0 # ts). t - last_ack_time s > TIMEOUT_SECONDS"
    using assms(5,6) by fastforce
  have a: "fold watch_loop (take k (t0 # ts)) s = (handle_timeout ^^ k) s \<and>
           transfer_active (fold watch_loop (take k (t0 # ts)) s) \<and>
           retry_count (fold watch_loop (take k (t0 # ts)) s) = int k \<and>
           sent (fold watch_loop (take k (t0 # ts)) s) = sent s @ replicate k ?frame"
    if "k \<le> 5" for k
  proof -
    have len: "length (take k (t0 # ts)) = k" using that assms(7) by simp
    have le: "retry_count s + int (length (take k (t0 # ts))) \<le> MAX_RETRIES"
      using that assms(4) by (simp add: len MAX_RETRIES_def)
    have "\<forall>t \<in> set (take k (t0 # ts)). t - last_ack_time s > TIMEOUT_SECONDS"
      using late by (meson in_set_takeD)
    from ticks_fire [OF assms(1,2,3) this le]
    have f: "fold watch_loop (take k (t0 # ts)) s = (handle_timeout ^^ k) s" by (simp only: len)
    have le': "retry_count s + int k \<le> MAX_RETRIES" using le by (simp only: len)
    show ?thesis
      using readable_handle_timeout_pow(3,5,6) [OF assms(1,2) le'] assms(3,4) by (simp add: f)
  qed
  have split: "t0 # ts = take 5 (t0 # ts) @ [last ts]"
    using assms(7) by (cases ts rule: rev_cases) simp_all
  have lastin: "last ts \<in> set ts" using assms(7) by (intro last_in_set) auto
  have five: "retry_count s + int 5 \<le> MAX_RETRIES" using assms(4) by (simp add: MAX_RETRIES_def)
  note h = readable_handle_timeout_pow(2,3,4) [OF assms(1,2) five]
  have "(5 :: nat) \<le> 5" by simp
  from a [OF this]
  have a5: "fold watch_loop (take 5 (t0 # ts)) s = (handle_timeout ^^ 5) s" by blast
  have s5: "sent ((handle_timeout ^^ 5) s) = sent s @ replicate 5 ?frame"
    using readable_handle_timeout_pow(6) [OF assms(1,2) five] by simp
  have "fold watch_loop (t0 # ts) s = watch_loop (last ts) (fold watch_loop (take 5 (t0 # ts)) s)"
    by (subst split) simp
  also have "\<dots> = watch_loop (last ts) ((handle_timeout ^^ 5) s)"
    by (simp only: a5)
  also have "\<dots> = handle_timeout ((handle_timeout ^^ 5) s)"
  proof (rule watch_loop_fires)
    show "transfer_active ((handle_timeout ^^ 5) s)" using h assms(3) by simp
    show "0 < current_chunk ((handle_timeout ^^ 5) s)" using h assms(2) by simp
    show "TIMEOUT_SECONDS < last ts - last_ack_time ((handle_timeout ^^ 5) s)"
      using h assms(5,6) lastin by fastforce
  qed
  finally have b: "fold watch_loop (t0 # ts) s = (handle_timeout ^^ 6) s"
    by (simp add: eval_nat_numeral)
  note six = sixth_timeout [OF assms(1,2,4)]
  have c: "\<not> transfer_active (fold watch_loop (t0 # ts) s)"
    by (simp only: b) (simp add: six)
  have e: "trace (fold watch_loop (t0 # ts) s) =
           trace (fold watch_loop (take 5 (t0 # ts)) s) @ [LogMessage LogTransferFailed, HideProgress]"
    by (simp only: b a5) (simp add: six)
  have "sent ((handle_timeout ^^ 6) s) = sent ((handle_timeout ^^ 5) s)"
    by (simp add: sent_def six frames_of_append)
  then have d: "sent (fold watch_loop (t0 # ts) s) = sent s @ replicate 5 ?frame"
    by (simp only: b s5)
  show ?thesis using a b c d e by blast
qed

theorem C10_retries_on_consecutive_ticks_witness:
  "retry_count (fold watch_loop [31, 32, 33, 34, 35] (started [65, 66, 67])) = 5 \<and>
   transfer_active (fold watch_loop [31, 32, 33, 34, 35] (started [65, 66, 67])) \<and>
   \<not> transfer_active (fold watch_loop [31, 32, 33, 34, 35, 36] (started [65, 66, 67])) \<and>
   sent (fold watch_loop [31, 32, 33, 34, 35, 36] (started [65, 66, 67])) =
     sent (started [65, 66, 67]) @ replicate 5 (''ZD|1|QUJD'', Some ''!a1'')"
proof -
  let ?s = "started [65, 66, 67]"
  have f: "chunk_frame 1 (read_chunk [65, 66, 67] 1) = ''ZD|1|QUJD''"
    by (simp add: chunk_frame_def read_chunk_def CHUNK_SIZE_def str_int_def digits_of.simps
        digit_char_def dec_digits_def b64_char_def b64_alphabet_def)
  have h2: "1 \<le> current_chunk ?s" by (simp add: started_fields)
  have h4: "retry_count ?s = 0" by (simp add: started_fields)
  have h5: "31 - last_ack_time ?s > TIMEOUT_SECONDS"
    by (simp add: started_fields TIMEOUT_SECONDS_def)
  have h6: "\<forall>t \<in> set [32, 33, 34, 35, 36 :: real]. 31 \<le> t" by simp
  have h7: "length [32, 33, 34, 35, 36 :: real] = 5" by simp
  note w = C10_retries_on_consecutive_ticks [OF started_fields(1) h2 started_fields(3) h4 h5 h6 h7]
  have t5: "take 5 [31, 32, 33, 34, 35, 36 :: real] = [31, 32, 33, 34, 35]" by simp
  from w have "\<forall>k \<le> 5. transfer_active (fold watch_loop (take k [31, 32, 33, 34, 35, 36]) ?s) \<and>
                 retry_count (fold watch_loop (take k [31, 32, 33, 34, 35, 36]) ?s) = int k"
    by blast
  from this [rule_format, of 5]
  have a: "transfer_active (fold watch_loop [31, 32, 33, 34, 35] ?s) \<and>
           retry_count (fold watch_loop [31, 32, 33, 34, 35] ?s) = 5"
    by (simp only: t5) simp
  from w have c: "\<not> transfer_active (fold watch_loop [31, 32, 33, 34, 35, 36] ?s)" by blast
  from w have "sent (fold watch_loop [31, 32, 33, 34, 35, 36] ?s) =
      sent ?s @ replicate 5 (chunk_frame (current_chunk ?s) (read_chunk [65, 66, 67] (current_chunk ?s)),
                             target_node_id ?s)"
    by blast
  then have d: "sent (fold watch_loop [31, 32, 33, 34, 35, 36] ?s) =
      sent ?s @ replicate 5 (''ZD|1|QUJD'', Some ''!a1'')"
    by (simp only: started_fields(2,6) f)
  show ?thesis using a c d by blast
qed

text \<open>
  C10 as stated fails. When the selected file has been deleted, the first tick that finds
  the timeout exceeded fires, the read fails, and the session ends there as a chunk error:
  the later ticks do nothing, no chunk is sent again, and the failure after five retries is
  never reported.
\<close>

theorem C10_file_lost_counterexample:
  "transfer_active (file_lost [65, 66, 67]) \<and>
   0 < current_chunk (file_lost [65, 66, 67]) \<and>
   retry_count (file_lost [65, 66, 67]) = 0 \<and>
   31 - last_ack_time (file_lost [65, 66, 67]) > TIMEOUT_SECONDS \<and>
   \<not> transfer_active (fold watch_loop [31] (file_lost [65, 66, 67])) \<and>
   retry_count (fold watch_loop [31, 32, 33, 34, 35, 36] (file_lost [65, 66, 67])) = 1 \<and>
   sent (fold watch_loop [31, 32, 33, 34, 35, 36] (file_lost [65, 66, 67])) =
     sent (file_lost [65, 66, 67]) \<and>
   LogMessage LogTransferFailed
     \<notin> set (trace (fold watch_loop [31, 32, 33, 34, 35, 36] (file_lost [65, 66, 67])))"
proof -
  let ?s = "file_lost [65, 66, 67]"
  let ?e = "watch_loop 31 ?s"
  have i: "\<not> transfer_active ?e" by (simp add: watch_loop_file_lost)
  have "fold watch_loop [31, 32, 33, 34, 35, 36] ?s = ?e"
    by (simp add: watch_loop_inactive [OF i])
  moreover have "trace ?s = trace (started [65, 66, 67])" by (simp add: file_lost_def)
  moreover have "LogMessage LogTransferFailed \<notin> set (trace (started [65, 66, 67]))"
    by (simp add: started_def on_packet_received_def text_packet_def startswith_def on_ack_def
        handle_send_request_def picked_def initial_def Let_def update_progress_def sendText_def
        log_message_def emit_def send_next_chunk_def CHUNK_SIZE_def)
  ultimately show ?thesis
    by (simp add: watch_loop_file_lost file_lost_fields TIMEOUT_SECONDS_def sent_def
        frames_of_append)
qed

subsection \<open>Acknowledgments\<close>

lemma sw_ack: "\<not> startswith ''MESHZ_ACK'' ''MESHZ_REQ''" "\<not> startswith ''MESHZ_ACK'' ''ZD|''"
  by (simp_all add: startswith_def)

lemma on_packet_ack:
  "on_packet_received now (text_packet sender ''MESHZ_ACK'') s = on_ack now sender s"
  by (simp add: on_packet_received_def text_packet_def sw_ack)

lemma startswith_iff: "startswith msg p \<longleftrightarrow> (\<exists>r. msg = p @ r)"
proof
  assume "startswith msg p"
  then have "msg = p @ drop (length p) msg"
    by (metis append_take_drop_id startswith_def)
  then show "\<exists>r. msg = p @ r" ..
next
  assume "\<exists>r. msg = p @ r"
  then show "startswith msg p" by (auto simp: startswith_def)
qed

lemma startswith_gocont:
  assumes "startswith msg ''MESHZ_GOCONT|''"
  shows "\<not> startswith msg ''MESHZ_REQ''" "\<not> startswith msg ''ZD|''" "msg \<noteq> ''MESHZ_ACK''"
proof -
  from assms obtain r where m: "msg = ''MESHZ_GOCONT|'' @ r"
    unfolding startswith_iff by blast
  show "\<not> startswith msg ''MESHZ_REQ''" "\<not> startswith msg ''ZD|''" "msg \<noteq> ''MESHZ_ACK''"
    by (simp_all add: m startswith_def)
qed

lemma on_packet_gocont:
  assumes "startswith msg ''MESHZ_GOCONT|''"
  shows "on_packet_received now (text_packet sender msg) s = on_gocont now sender msg s"
  using assms startswith_gocont [OF assms]
  by (simp add: on_packet_received_def text_packet_def)

lemma current_chunk_send_next_chunk [simp]: "current_chunk (send_next_chunk s) = current_chunk s"
  by (simp add: send_next_chunk_def chunk_error_def sendText_def log_message_def emit_def
      split: option.splits)

lemma on_gocont_index:
  "on_gocont now sender msg s =
     (if transfer_active s \<and> sender = target_node_id s then
        (case gocont_index msg of
           None \<Rightarrow> packet_error s
         | Some ack_num \<Rightarrow>
             if ack_num = current_chunk s then
               (let s1 = s\<lparr>last_ack_time := now, retry_count := 0,
                             current_chunk := current_chunk s + 1\<rparr>
                in if current_chunk s1 \<le> total_chunks s1 then
                     send_next_chunk
                       (update_progress (current_chunk s1) (total_chunks s1) Sending s1)
                   else hide_progress
                          (log_message LogTransferComplete (s1\<lparr>transfer_active := False\<rparr>)))
             else s)
      else s)"
  by (simp add: on_gocont_def gocont_index_def split: option.splits)

lemma current_chunk_on_gocont:
  "current_chunk (on_gocont now sender msg s) =
     (if transfer_active s \<and> sender = target_node_id s \<and> gocont_index msg = Some (current_chunk s)
      then current_chunk s + 1 else current_chunk s)"
  by (simp add: on_gocont_def gocont_index_def packet_error_def log_message_def emit_def
      hide_progress_def update_progress_def Let_def split: option.splits)

lemma readable_update [simp]:
  "readable (s\<lparr>trace := tr\<rparr>) F = readable s F"
  "readable (s\<lparr>current_chunk := c\<rparr>) F = readable s F"
  "readable (s\<lparr>last_ack_time := t\<rparr>) F = readable s F"
  "readable (s\<lparr>retry_count := r\<rparr>) F = readable s F"
  "readable (s\<lparr>transfer_active := a\<rparr>) F = readable s F"
  "readable (s\<lparr>total_chunks := n\<rparr>) F = readable s F"
  by (simp_all add: readable_def split: option.splits)

lemma retry_count_send_next_chunk [simp]: "retry_count (send_next_chunk s) = retry_count s"
  by (simp add: send_next_chunk_def chunk_error_def sendText_def log_message_def emit_def
      split: option.splits)

lemma on_ack_readable:
  assumes "transfer_active s" and "sender = target_node_id s" and "readable s F"
  shows "on_ack now sender s =
     s\<lparr>current_chunk := 1, last_ack_time := now, retry_count := 0,
       trace := trace s @ [UpdateProgress 1 (total_chunks s) Sending,
                           SendText (chunk_frame 1 (read_chunk F 1)) (target_node_id s)]\<rparr>"
proof -
  let ?m = "update_progress 1 (total_chunks s) Sending
              (s\<lparr>current_chunk := 1, last_ack_time := now, retry_count := 0\<rparr>)"
  have r: "readable ?m F" using assms(3) by (simp add: update_progress_def emit_def)
  have c: "1 \<le> current_chunk ?m" by (simp add: update_progress_def emit_def)
  have "on_ack now sender s = send_next_chunk ?m"
    using assms(1,2) by (simp add: on_ack_def Let_def)
  also note send_next_chunk_readable [OF r c]
  finally show ?thesis by (simp add: update_progress_def emit_def)
qed

text \<open>
  C3 (amended). A \<^verbatim>\<open>MESHZ_ACK\<close> frame is a no-op (the whole object, trace included, is as
  before) unless the transfer is active and the frame's sender is the selected target. When
  both hold, whatever \<open>current_chunk\<close> is (0, or already 1 or more), the handler sets
  \<open>current_chunk\<close> to 1, \<open>last_ack_time\<close> to now and \<open>retry_count\<close> to 0, and, the selected
  file being readable, sends the frame of chunk 1 to the target and stays active.
  A \<^verbatim>\<open>MESHZ_GOCONT|...\<close> frame changes \<open>current_chunk\<close> only when the transfer is active, the
  sender is the target and the index is exactly \<open>current_chunk\<close>; then it adds one.
\<close>

theorem C3_ack_guard:
  "(\<not> (transfer_active s \<and> sender = target_node_id s) \<longrightarrow>
      on_packet_received now (text_packet sender ''MESHZ_ACK'') s = s) \<and>
   (transfer_active s \<and> sender = target_node_id s \<longrightarrow>
      current_chunk (on_packet_received now (text_packet sender ''MESHZ_ACK'') s) = 1 \<and>
      retry_count (on_packet_received now (text_packet sender ''MESHZ_ACK'') s) = 0 \<and>
      last_ack_time (on_packet_received now (text_packet sender ''MESHZ_ACK'') s) = now) \<and>
   (transfer_active s \<and> sender = target_node_id s \<and> readable s F \<longrightarrow>
      transfer_active (on_packet_received now (text_packet sender ''MESHZ_ACK'') s) \<and>
      sent (on_packet_received now (text_packet sender ''MESHZ_ACK'') s) =
        sent s @ [(chunk_frame 1 (read_chunk F 1), target_node_id s)]) \<and>
   (startswith msg ''MESHZ_GOCONT|'' \<longrightarrow>
      current_chunk (on_packet_received now (text_packet sender msg) s) =
        (if transfer_active s \<and> sender = target_node_id s \<and>
            gocont_index msg = Some (current_chunk s)
         then current_chunk s + 1 else current_chunk s))"
proof -
  have 1: "on_packet_received now (text_packet sender ''MESHZ_ACK'') s = s"
    if "\<not> (transfer_active s \<and> sender = target_node_id s)"
    using that by (auto simp: on_packet_ack on_ack_def)
  have 2: "current_chunk (on_packet_received now (text_packet sender ''MESHZ_ACK'') s) = 1 \<and>
      retry_count (on_packet_received now (text_packet sender ''MESHZ_ACK'') s) = 0 \<and>
      last_ack_time (on_packet_received now (text_packet sender ''MESHZ_ACK'') s) = now"
    if "transfer_active s \<and> sender = target_node_id s"
    using that by (simp add: on_packet_ack on_ack_def Let_def update_progress_def emit_def)
  have 3: "transfer_active (on_packet_received now (text_packet sender ''MESHZ_ACK'') s) \<and>
      sent (on_packet_received now (text_packet sender ''MESHZ_ACK'') s) =
        sent s @ [(chunk_frame 1 (read_chunk F 1), target_node_id s)]"
    if "transfer_active s \<and> sender = target_node_id s \<and> readable s F"
  proof -
    from that have a: "transfer_active s" "sender = target_node_id s" "readable s F" by blast+
    show ?thesis
      using a(1) by (simp add: on_packet_ack on_ack_readable [OF a] sent_def frames_of_append)
  qed
  have 4: "current_chunk (on_packet_received now (text_packet sender msg) s) =
        (if transfer_active s \<and> sender = target_node_id s \<and>
            gocont_index msg = Some (current_chunk s)
         then current_chunk s + 1 else current_chunk s)"
    if "startswith msg ''MESHZ_GOCONT|''"
    by (simp only: on_packet_gocont [OF that] current_chunk_on_gocont)
  show ?thesis using 1 2 3 4 by blast
qed

theorem C3_ack_guard_witness:
  "on_packet_received 5 (text_packet (Some ''!a1'') ''MESHZ_ACK'') (picked [65, 66, 67]) = picked [65, 66, 67] \<and>
   current_chunk (on_packet_received 5 (text_packet (Some ''!a1'') ''MESHZ_ACK'') (started [65, 66, 67])) = 1 \<and>
   retry_count (on_packet_received 5 (text_packet (Some ''!a1'') ''MESHZ_ACK'') (started [65, 66, 67])) = 0 \<and>
   last_ack_time (on_packet_received 5 (text_packet (Some ''!a1'') ''MESHZ_ACK'') (started [65, 66, 67])) = 5 \<and>
   transfer_active (on_packet_received 5 (text_packet (Some ''!a1'') ''MESHZ_ACK'') (started [65, 66, 67])) \<and>
   sent (on_packet_received 5 (text_packet (Some ''!a1'') ''MESHZ_ACK'') (started [65, 66, 67])) =
     sent (started [65, 66, 67]) @ [(''ZD|1|QUJD'', Some ''!a1'')] \<and>
   current_chunk (on_packet_received 5 (text_packet (Some ''!a1'') ''MESHZ_GOCONT|1'') (started [65, 66, 67])) = 2"
proof -
  have g: "gocont_index ''MESHZ_GOCONT|1'' = Some 1"
    by (simp add: gocont_index_def nth_opt_def py_int_def is_ascii_def strip_def is_space_def
        dec_digits_def)
  have p: "\<not> transfer_active (picked [65, 66, 67])" by (simp add: picked_def initial_def)
  have s: "startswith ''MESHZ_GOCONT|1'' ''MESHZ_GOCONT|''" by (simp add: startswith_def)
  have f: "chunk_frame 1 (read_chunk [65, 66, 67] 1) = ''ZD|1|QUJD''"
    by (simp add: chunk_frame_def read_chunk_def CHUNK_SIZE_def str_int_def digits_of.simps
        digit_char_def dec_digits_def b64_char_def b64_alphabet_def)
  show ?thesis
    using C3_ack_guard [of "picked [65, 66, 67]" "Some ''!a1''" 5 "[65, 66, 67]" "''MESHZ_GOCONT|1''"]
      C3_ack_guard [of "started [65, 66, 67]" "Some ''!a1''" 5 "[65, 66, 67]" "''MESHZ_GOCONT|1''"]
    by (simp add: g p s f started_fields)
qed

text \<open>
  C3 as stated fails: a session that is sending chunk 2 of a file of 121 bytes and receives
  \<^verbatim>\<open>MESHZ_ACK\<close> from its target goes back to chunk 1, takes the time of the frame as
  \<open>last_ack_time\<close> and sends a frame.
\<close>

theorem C3_ack_while_sending_counterexample:
  "transfer_active (on_packet_received 2 (text_packet (Some ''!a1'') ''MESHZ_GOCONT|1'') (started (replicate 121 0))) \<and>
   current_chunk (on_packet_received 2 (text_packet (Some ''!a1'') ''MESHZ_GOCONT|1'') (started (replicate 121 0))) = 2 \<and>
   last_ack_time (on_packet_received 2 (text_packet (Some ''!a1'') ''MESHZ_GOCONT|1'') (started (replicate 121 0))) = 2 \<and>
   current_chunk (on_packet_received 3 (text_packet (Some ''!a1'') ''MESHZ_ACK'')
     (on_packet_received 2 (text_packet (Some ''!a1'') ''MESHZ_GOCONT|1'') (started (replicate 121 0)))) = 1 \<and>
   last_ack_time (on_packet_received 3 (text_packet (Some ''!a1'') ''MESHZ_ACK'')
     (on_packet_received 2 (text_packet (Some ''!a1'') ''MESHZ_GOCONT|1'') (started (replicate 121 0)))) = 3 \<and>
   length (sent (on_packet_received 3 (text_packet (Some ''!a1'') ''MESHZ_ACK'')
     (on_packet_received 2 (text_packet (Some ''!a1'') ''MESHZ_GOCONT|1'') (started (replicate 121 0))))) =
   length (sent (on_packet_received 2 (text_packet (Some ''!a1'') ''MESHZ_GOCONT|1'') (started (replicate 121 0)))) + 1"
proof -
  let ?F = "replicate 121 (0 :: byte)"
  let ?s = "on_packet_received 2 (text_packet (Some ''!a1'') ''MESHZ_GOCONT|1'') (started ?F)"
  have g: "gocont_index ''MESHZ_GOCONT|1'' = Some 1"
    by (simp add: gocont_index_def nth_opt_def py_int_def is_ascii_def strip_def is_space_def dec_digits_def)
  have s: "startswith ''MESHZ_GOCONT|1'' ''MESHZ_GOCONT|''" by (simp add: startswith_def)
  have c1: "1 \<le> current_chunk (started ?F)" by (simp add: started_fields)
  let ?m = "update_progress 2 2 Sending ((started ?F)\<lparr>last_ack_time := 2, retry_count := 0, current_chunk := 2\<rparr>)"
  have rm: "readable ?m ?F"
    using started_fields(1) [of ?F] by (simp add: update_progress_def emit_def)
  have "?s = on_gocont 2 (Some ''!a1'') ''MESHZ_GOCONT|1'' (started ?F)"
    by (rule on_packet_gocont [OF s])
  also have "\<dots> = send_next_chunk ?m"
    by (simp add: on_gocont_index g started_fields Let_def)
  also note send_next_chunk_readable [OF rm]
  finally have e: "?s = ?m\<lparr>trace := trace ?m @
       [SendText (chunk_frame (current_chunk ?m) (read_chunk ?F (current_chunk ?m))) (target_node_id ?m)]\<rparr>"
    by (simp add: update_progress_def emit_def)
  have f: "transfer_active ?s" "current_chunk ?s = 2" "last_ack_time ?s = 2"
    "target_node_id ?s = Some ''!a1''" "readable ?s ?F" "total_chunks ?s = 2"
    using rm by (simp_all add: e update_progress_def emit_def started_fields
       )
  let ?n = "update_progress 1 2 Sending (?s\<lparr>current_chunk := 1, last_ack_time := 3, retry_count := 0\<rparr>)"
  have rn: "readable ?n ?F"
    using f(5) by (simp add: update_progress_def emit_def)
  have "on_packet_received 3 (text_packet (Some ''!a1'') ''MESHZ_ACK'') ?s = on_ack 3 (Some ''!a1'') ?s"
    by (rule on_packet_ack)
  also have "\<dots> = send_next_chunk ?n"
    by (simp add: on_ack_def f Let_def)
  also note send_next_chunk_readable [OF rn]
  finally have e2: "on_packet_received 3 (text_packet (Some ''!a1'') ''MESHZ_ACK'') ?s =
      ?n\<lparr>trace := trace ?n @
       [SendText (chunk_frame (current_chunk ?n) (read_chunk ?F (current_chunk ?n))) (target_node_id ?n)]\<rparr>"
    by (simp add: update_progress_def emit_def)
  have "current_chunk (on_packet_received 3 (text_packet (Some ''!a1'') ''MESHZ_ACK'') ?s) = 1"
    "last_ack_time (on_packet_received 3 (text_packet (Some ''!a1'') ''MESHZ_ACK'') ?s) = 3"
    "length (sent (on_packet_received 3 (text_packet (Some ''!a1'') ''MESHZ_ACK'') ?s)) = length (sent ?s) + 1"
    by (simp_all add: e2 update_progress_def emit_def sent_def frames_of_append)
  with f show ?thesis by blast
qed

subsection \<open>Receiving chunks\<close>

lemma startswith_data:
  assumes "startswith msg ''ZD|''"
  shows "\<not> startswith msg ''MESHZ_REQ''"
proof -
  from assms obtain r where m: "msg = ''ZD|'' @ r"
    unfolding startswith_iff by blast
  show ?thesis by (simp add: m startswith_def)
qed

lemma on_packet_data:
  assumes "startswith msg ''ZD|''"
  shows "on_packet_received now (text_packet sender msg) s = on_data sender msg s"
  using assms startswith_data [OF assms]
  by (simp add: on_packet_received_def text_packet_def)

lemma on_data_parsed:
  "on_data sender msg s =
     (case parse_data msg of
        None \<Rightarrow> packet_error s
      | Some (c_num, raw) \<Rightarrow>
          let s3 = s\<lparr>receive_buffer := AList.update c_num raw (receive_buffer s),
                     trace := trace s @
                       [UpdateProgress (int (length (AList.update c_num raw (receive_buffer s))))
                          (receiving_total_chunks s) Receiving,
                        SendText (gocont_frame c_num) sender]\<rparr>
          in if int (length (receive_buffer s3)) = receiving_total_chunks s3
             then hide_progress (save_received_file s3)
             else s3)"
  by (simp add: on_data_def parse_data_def Let_def update_progress_def sendText_def emit_def
      split: option.splits)

lemma save_received_file_fields [simp]:
  "receive_buffer (save_received_file s) = receive_buffer s"
  "receiving_file_name (save_received_file s) = receiving_file_name s"
  "receiving_total_chunks (save_received_file s) = receiving_total_chunks s"
  "frames_of (trace (save_received_file s)) = frames_of (trace s)"
  by (simp_all add: save_received_file_def log_message_def emit_def frames_of_append Let_def
      split: prod.splits)

lemma hide_progress_fields [simp]:
  "receive_buffer (hide_progress s) = receive_buffer s"
  "receiving_file_name (hide_progress s) = receiving_file_name s"
  "receiving_total_chunks (hide_progress s) = receiving_total_chunks s"
  "disk (hide_progress s) = disk s"
  "frames_of (trace (hide_progress s)) = frames_of (trace s)"
  by (simp_all add: hide_progress_def emit_def frames_of_append)

lemma on_data_buffer:
  assumes "parse_data msg = Some (i, p)"
  shows "receive_buffer (on_data sender msg s) = AList.update i p (receive_buffer s)"
    and "sent (on_data sender msg s) = sent s @ [(gocont_frame i, sender)]"
    and "receiving_total_chunks (on_data sender msg s) = receiving_total_chunks s"
    and "receiving_file_name (on_data sender msg s) = receiving_file_name s"
  using assms by (simp_all add: on_data_parsed Let_def sent_def frames_of_append)

lemmas parse_defs = parse_data_def nth_opt_def py_int_def is_ascii_def strip_def is_space_def dec_digits_def
  b64decode_def b64_alphabet_def

lemma parse_data_examples:
  "parse_data ''ZD|1|QUJD'' = Some (1, [65, 66, 67])"
  "parse_data ''ZD|1|QUJDRA=='' = Some (1, [65, 66, 67, 68])"
  "parse_data ''ZD|3|R0g='' = Some (3, [71, 72])"
  "parse_data ''ZD|x|QUJD'' = None"
  "parse_data ''ZD|1'' = None"
  "parse_data ''ZD|1|QUJ'' = None"
  by (simp_all add: parse_defs)

lemma received_snoc:
  "received (msgs @ [m]) = on_packet_received 0 (text_packet (Some ''!b2'') m) (received msgs)"
  by (simp add: received_def)

lemma received_req:
  "received [''MESHZ_REQ|f.bin|8|2''] =
     (initial ''/home/u'' [] flat_downloads)\<lparr>receiving_file_name := Some ''f.bin'', receiving_total_chunks := 2,
        trace := [LogMessage (LogReq (Some ''!b2'') ''f.bin''), UpdateProgress 0 2 Receiving,
                  SendText ''MESHZ_ACK'' (Some ''!b2'')]\<rparr>"
  by (simp add: received_def on_packet_received_def text_packet_def startswith_def on_req_def
      nth_opt_def py_int_def is_ascii_def strip_def is_space_def dec_digits_def Let_def log_message_def
      update_progress_def sendText_def emit_def initial_def)

text \<open>
  C5. The handler returns for every frame and logs the error of a malformed one, but a
  \<^verbatim>\<open>MESHZ_REQ\<close> frame whose chunk count is not a number has already overwritten
  \<open>receiving_file_name\<close> when \<^verbatim>\<open>int(parts[3])\<close> raises: the state is not left unchanged.
\<close>

theorem C5_malformed_request_changes_state:
  "receiving_file_name (initial ''/home/u'' [] flat_downloads) = None \<and>
   receiving_file_name (on_packet_received 0 (text_packet (Some ''!b2'') ''MESHZ_REQ|evil.txt|10|x'')
                          (initial ''/home/u'' [] flat_downloads)) = Some ''evil.txt'' \<and>
   trace (on_packet_received 0 (text_packet (Some ''!b2'') ''MESHZ_REQ|evil.txt|10|x'')
            (initial ''/home/u'' [] flat_downloads)) = [LogMessage LogPacketError]"
  by (simp add: on_packet_received_def text_packet_def startswith_def on_req_def
      nth_opt_def py_int_def is_ascii_def strip_def is_space_def dec_digits_def Let_def log_message_def
      packet_error_def emit_def initial_def)

lemma upto_1_2: "[1 .. 2 :: int] = [1, 2]"
  by (simp add: upto_rec1)

lemma write_chunks_example:
  "write_chunks [(3, [71, 72]), (1, [65, 66, 67, 68])] [1 .. 2] [] = ([65, 66, 67, 68], False)"
  by (simp add: upto_1_2)

lemma received_stale:
  "received [''MESHZ_REQ|f.bin|8|2'', ''ZD|3|R0g=''] =
     (initial ''/home/u'' [] flat_downloads)\<lparr>receiving_file_name := Some ''f.bin'', receiving_total_chunks := 2,
        receive_buffer := [(3, [71, 72])],
        trace := [LogMessage (LogReq (Some ''!b2'') ''f.bin''), UpdateProgress 0 2 Receiving,
                  SendText ''MESHZ_ACK'' (Some ''!b2''),
                  UpdateProgress 1 2 Receiving, SendText (gocont_frame 3) (Some ''!b2'')]\<rparr>"
proof -
  have a: "startswith ''ZD|3|R0g='' ''ZD|''" by (simp add: startswith_def)
  have "received [''MESHZ_REQ|f.bin|8|2'', ''ZD|3|R0g=''] =
      on_data (Some ''!b2'') ''ZD|3|R0g='' (received [''MESHZ_REQ|f.bin|8|2''])"
    using received_snoc [of "[''MESHZ_REQ|f.bin|8|2'']" "''ZD|3|R0g=''"]
    by (simp add: on_packet_data [OF a])
  also have "\<dots> = (initial ''/home/u'' [] flat_downloads)\<lparr>receiving_file_name := Some ''f.bin'', receiving_total_chunks := 2,
        receive_buffer := [(3, [71, 72])],
        trace := [LogMessage (LogReq (Some ''!b2'') ''f.bin''), UpdateProgress 0 2 Receiving,
                  SendText ''MESHZ_ACK'' (Some ''!b2''),
                  UpdateProgress 1 2 Receiving, SendText (gocont_frame 3) (Some ''!b2'')]\<rparr>"
    by (simp add: received_req on_data_parsed parse_data_examples Let_def initial_def)
  finally show ?thesis .
qed

lemma received_partial:
  "received [''MESHZ_REQ|f.bin|8|2'', ''ZD|3|R0g='', ''ZD|1|QUJDRA==''] =
     (initial ''/home/u'' [] flat_downloads)\<lparr>receiving_file_name := Some ''f.bin'', receiving_total_chunks := 2,
        receive_buffer := [(3, [71, 72]), (1, [65, 66, 67, 68])],
        disk := [(''/home/u/Downloads/meshz_f.bin'', [65, 66, 67, 68])],
        trace := [LogMessage (LogReq (Some ''!b2'') ''f.bin''), UpdateProgress 0 2 Receiving,
                  SendText ''MESHZ_ACK'' (Some ''!b2''),
                  UpdateProgress 1 2 Receiving, SendText (gocont_frame 3) (Some ''!b2''),
                  UpdateProgress 2 2 Receiving, SendText (gocont_frame 1) (Some ''!b2''),
                  LogMessage LogSaveError, HideProgress]\<rparr>"
proof -
  have a: "startswith ''ZD|1|QUJDRA=='' ''ZD|''" by (simp add: startswith_def)
  have "received [''MESHZ_REQ|f.bin|8|2'', ''ZD|3|R0g='', ''ZD|1|QUJDRA==''] =
      on_data (Some ''!b2'') ''ZD|1|QUJDRA=='' (received [''MESHZ_REQ|f.bin|8|2'', ''ZD|3|R0g=''])"
    using received_snoc [of "[''MESHZ_REQ|f.bin|8|2'', ''ZD|3|R0g='']" "''ZD|1|QUJDRA==''"]
    by (simp add: on_packet_data [OF a])
  also have "\<dots> = (initial ''/home/u'' [] flat_downloads)\<lparr>receiving_file_name := Some ''f.bin'', receiving_total_chunks := 2,
        receive_buffer := [(3, [71, 72]), (1, [65, 66, 67, 68])],
        disk := [(''/home/u/Downloads/meshz_f.bin'', [65, 66, 67, 68])],
        trace := [LogMessage (LogReq (Some ''!b2'') ''f.bin''), UpdateProgress 0 2 Receiving,
                  SendText ''MESHZ_ACK'' (Some ''!b2''),
                  UpdateProgress 1 2 Receiving, SendText (gocont_frame 3) (Some ''!b2''),
                  UpdateProgress 2 2 Receiving, SendText (gocont_frame 1) (Some ''!b2''),
                  LogMessage LogSaveError, HideProgress]\<rparr>"
    by (simp add: received_stale on_data_parsed parse_data_examples Let_def initial_def
        save_received_file_def save_path_def hide_progress_def log_message_def emit_def
        write_chunks_example flat_downloads_def startswith_def)
  finally show ?thesis .
qed

text \<open>
  C6. The file is written when the buffer holds \<open>receiving_total_chunks\<close> keys, whatever the
  keys are. After a request for 2 chunks, a stale chunk 3 and chunk 1 make two keys: the file
  is opened, chunk 1 is written, and the lookup of chunk 2 raises. The output file then holds
  the bytes of chunk 1 although index 2 is missing.
\<close>

theorem C6_partial_file_written:
  "receiving_total_chunks (received [''MESHZ_REQ|f.bin|8|2'', ''ZD|3|R0g='', ''ZD|1|QUJDRA=='']) = 2 \<and>
   map_of (receive_buffer (received [''MESHZ_REQ|f.bin|8|2'', ''ZD|3|R0g='', ''ZD|1|QUJDRA==''])) 2 = None \<and>
   disk (received [''MESHZ_REQ|f.bin|8|2'', ''ZD|3|R0g='']) = [] \<and>
   disk (received [''MESHZ_REQ|f.bin|8|2'', ''ZD|3|R0g='', ''ZD|1|QUJDRA=='']) =
     [(''/home/u/Downloads/meshz_f.bin'', [65, 66, 67, 68])]"
  by (simp add: received_partial received_stale initial_def)






subsection \<open>Frames survive the wire\<close>

lemma split_bar_single: "CHR ''|'' \<notin> set b \<Longrightarrow> split_bar b = [b]"
  by (induction b) auto

lemma split_bar_field:
  "CHR ''|'' \<notin> set a \<Longrightarrow> split_bar (a @ CHR ''|'' # b) = a # split_bar b"
  by (induction a) auto

lemma index_of_nth:
  "distinct xs \<Longrightarrow> k < length xs \<Longrightarrow> index_of xs (xs ! k) = Some k"
proof (induction xs arbitrary: k)
  case Nil
  then show ?case by simp
next
  case (Cons x xs)
  show ?case
  proof (cases k)
    case 0
    then show ?thesis by simp
  next
    case (Suc j)
    with Cons.prems have "xs ! j \<in> set xs" "x \<notin> set xs" by auto
    then have "xs ! j \<noteq> x" by blast
    with Cons Suc show ?thesis by simp
  qed
qed

lemma digit_char_facts:
  assumes "d < 10"
  shows "index_of dec_digits (digit_char d) = Some d"
    and "digit_char d \<in> set dec_digits"
proof -
  have dist: "distinct dec_digits" by (simp add: dec_digits_def)
  have len: "length dec_digits = 10" by (simp add: dec_digits_def)
  show "index_of dec_digits (digit_char d) = Some d"
    unfolding digit_char_def using assms by (intro index_of_nth dist) (simp add: len)
  show "digit_char d \<in> set dec_digits"
    unfolding digit_char_def using assms by (intro nth_mem) (simp add: len)
qed

lemma dec_digits_plain:
  assumes "c \<in> set dec_digits"
  shows "c \<noteq> CHR ''_''" "c \<noteq> CHR ''|''" "c \<noteq> CHR ''-''" "c \<noteq> CHR ''+''" "\<not> is_space c"
  using assms by (auto simp: dec_digits_def is_space_def)

lemma dec_digits_ascii: "c \<in> set dec_digits \<Longrightarrow> (of_char c :: nat) < 128"
  by (auto simp: dec_digits_def)

lemma digits_of_set: "set (digits_of n) \<subseteq> set dec_digits"
proof (induction n rule: digits_of.induct)
  case (1 n)
  show ?case
  proof (cases "n < 10")
    case True
    then show ?thesis by (subst digits_of.simps) (simp add: digit_char_facts(2))
  next
    case False
    then have "n mod 10 < 10" by simp
    with 1 False show ?thesis
      by (subst digits_of.simps) (simp add: digit_char_facts(2))
  qed
qed

lemma digits_of_nonempty: "digits_of n \<noteq> []"
  by (subst digits_of.simps) simp

lemma parse_digits_digit:
  assumes "d < 10"
  shows "parse_digits u (digit_char d # cs) acc = parse_digits True cs (acc * 10 + d)"
  using digit_char_facts(1) [OF assms] dec_digits_plain(1) [OF digit_char_facts(2) [OF assms]]
  by simp

lemma parse_digits_digits_of:
  "parse_digits u (digits_of n @ cs) acc =
     parse_digits True cs (acc * 10 ^ length (digits_of n) + n)"
proof (induction n arbitrary: u cs acc rule: digits_of.induct)
  case (1 n)
  show ?case
  proof (cases "n < 10")
    case True
    then have d: "digits_of n = [digit_char n]" by (subst digits_of.simps) simp
    show ?thesis by (simp add: d parse_digits_digit [OF True] del: parse_digits.simps)
  next
    case False
    then have d: "digits_of n = digits_of (n div 10) @ [digit_char (n mod 10)]"
      by (subst digits_of.simps) simp
    have m: "n mod 10 < 10" by simp
    have "parse_digits u (digits_of n @ cs) acc =
          parse_digits u (digits_of (n div 10) @ (digit_char (n mod 10) # cs)) acc"
      by (simp add: d)
    also have "\<dots> = parse_digits True (digit_char (n mod 10) # cs)
                        (acc * 10 ^ length (digits_of (n div 10)) + n div 10)"
      using False by (intro "1.IH") simp
    also have "\<dots> = parse_digits True cs
                        ((acc * 10 ^ length (digits_of (n div 10)) + n div 10) * 10 + n mod 10)"
      by (rule parse_digits_digit [OF m])
    also have "(acc * 10 ^ length (digits_of (n div 10)) + n div 10) * 10 + n mod 10 =
               acc * 10 ^ length (digits_of n) + n"
      by (simp add: d algebra_simps)
    finally show ?thesis .
  qed
qed

lemma parse_digits_roundtrip: "parse_digits False (digits_of n) 0 = Some n"
  using parse_digits_digits_of [of False n "[]" 0] by simp

lemma dropWhile_hd: "xs \<noteq> [] \<Longrightarrow> \<not> P (hd xs) \<Longrightarrow> dropWhile P xs = xs"
  by (cases xs) simp_all

lemma strip_plain:
  assumes "s \<noteq> []" "\<not> is_space (hd s)" "\<not> is_space (last s)"
  shows "strip s = s"
proof -
  from assms obtain c cs where s: "s = c # cs" by (cases s) auto
  have 1: "dropWhile is_space s = s" using assms(2) by (simp add: s)
  have "rev s \<noteq> []" "hd (rev s) = last s" using assms(1) by (simp_all add: hd_rev)
  then have 2: "dropWhile is_space (rev s) = rev s"
    using assms(3) by (intro dropWhile_hd) simp_all
  show ?thesis by (simp add: strip_def 1 2)
qed

lemma digits_of_ends:
  "\<not> is_space (hd (digits_of n))" "\<not> is_space (last (digits_of n))"
  "hd (digits_of n) \<noteq> CHR ''-''" "hd (digits_of n) \<noteq> CHR ''+''"
proof -
  have "hd (digits_of n) \<in> set dec_digits" "last (digits_of n) \<in> set dec_digits"
    using digits_of_set [of n] digits_of_nonempty [of n] by (auto simp: subset_iff)
  then show "\<not> is_space (hd (digits_of n))" "\<not> is_space (last (digits_of n))"
    "hd (digits_of n) \<noteq> CHR ''-''" "hd (digits_of n) \<noteq> CHR ''+''"
    using dec_digits_plain by blast+
qed

lemma is_ascii_str_int: "is_ascii (str_int i)"
proof -
  have "is_ascii (digits_of n)" for n
    using digits_of_set [of n] dec_digits_ascii by (auto simp: is_ascii_def list_all_iff)
  then show ?thesis by (simp add: str_int_def is_ascii_def)
qed

lemma py_int_str_int: "py_int (str_int i) = Some i"
proof (cases "i < 0")
  case True
  let ?ds = "digits_of (nat (- i))"
  have s: "str_int i = CHR ''-'' # ?ds" using True by (simp add: str_int_def)
  have "strip (CHR ''-'' # ?ds) = CHR ''-'' # ?ds"
    using digits_of_nonempty [of "nat (- i)"] digits_of_ends(2) [of "nat (- i)"]
    by (intro strip_plain) (simp_all add: is_space_def)
  then show ?thesis
    using True is_ascii_str_int [of i] by (simp add: s py_int_def parse_digits_roundtrip)
next
  case False
  let ?ds = "digits_of (nat i)"
  have s: "str_int i = ?ds" using False by (simp add: str_int_def)
  have st: "strip ?ds = ?ds"
    using digits_of_nonempty digits_of_ends by (intro strip_plain)
  obtain c cs where d: "?ds = c # cs"
    using digits_of_nonempty [of "nat i"] by (cases ?ds) auto
  have c: "c \<noteq> CHR ''-''" "c \<noteq> CHR ''+''"
    using digits_of_ends(3,4) [of "nat i"] by (simp_all add: d)
  have p: "parse_digits False (c # cs) 0 = Some (nat i)"
    using parse_digits_roundtrip [of "nat i"] by (simp only: d)
  have st': "strip (c # cs) = c # cs" using st by (simp only: d)
  have "is_ascii (c # cs)" using is_ascii_str_int [of i] by (simp only: s d)
  then have "py_int (c # cs) = Some i"
    using False c by (simp add: py_int_def st' p del: parse_digits.simps)
  then show ?thesis by (simp only: s d)
qed

lemma str_int_no_bar: "CHR ''|'' \<notin> set (str_int i)"
proof -
  have "CHR ''|'' \<notin> set (digits_of n)" for n
    using digits_of_set [of n] dec_digits_plain(2) by blast
  then show ?thesis by (simp add: str_int_def)
qed

lemma b64_alphabet_facts:
  "distinct b64_alphabet" "length b64_alphabet = 64"
  "CHR ''='' \<notin> set b64_alphabet" "CHR ''|'' \<notin> set b64_alphabet"
  "list_all (\<lambda>c. (of_char c :: nat) < 128) b64_alphabet"
  by (simp_all add: b64_alphabet_def)

lemma b64_char_facts:
  assumes "v < 64"
  shows "index_of b64_alphabet (b64_char v) = Some v" and "b64_char v \<in> set b64_alphabet"
    and "b64_char v \<noteq> CHR ''=''"
proof -
  show "index_of b64_alphabet (b64_char v) = Some v"
    unfolding b64_char_def using assms
    by (intro index_of_nth b64_alphabet_facts(1)) (simp add: b64_alphabet_facts(2))
  show m: "b64_char v \<in> set b64_alphabet"
    unfolding b64_char_def using assms by (intro nth_mem) (simp add: b64_alphabet_facts(2))
  show "b64_char v \<noteq> CHR ''=''"
    using m b64_alphabet_facts(3) by metis
qed

lemma a2b_base64_char:
  assumes "v < 64"
  shows "a2b_base64 (b64_char v # cs) q l p out =
     (if q = 0 then a2b_base64 cs 1 v 0 out
      else if q = 1 then a2b_base64 cs 2 (v mod 16) 0 (out @ [of_nat (l * 4 + v div 16)])
      else if q = 2 then a2b_base64 cs 3 (v mod 4) 0 (out @ [of_nat (l * 16 + v div 4)])
      else a2b_base64 cs 0 0 0 (out @ [of_nat (l * 64 + v)]))"
  using b64_char_facts(1,3) [OF assms] by simp

lemma sextet_bounds:
  fixes x y z :: nat
  assumes "x < 256" "y < 256" "z < 256"
  shows "x div 4 < 64" "(x mod 4) * 16 + y div 16 < 64" "(x mod 4) * 16 < 64"
    "(y mod 16) * 4 + z div 64 < 64" "(y mod 16) * 4 < 64" "z mod 64 < 64"
proof -
  have a: "y div 16 < 16" "z div 64 < 4" "x mod 4 < 4" "y mod 16 < 16"
    using assms by simp_all
  show "x div 4 < 64" using assms by simp
  show "(x mod 4) * 16 + y div 16 < 64" using a by linarith
  show "(y mod 16) * 4 + z div 64 < 64" using a by linarith
  show "(x mod 4) * 16 < 64" "(y mod 16) * 4 < 64" "z mod 64 < 64" by simp_all
qed

lemma sextet_join:
  fixes x y z :: nat
  assumes "y < 256" "z < 256"
  shows "(x div 4) * 4 + ((x mod 4) * 16 + y div 16) div 16 = x"
    and "(((x mod 4) * 16 + y div 16) mod 16) * 16 + ((y mod 16) * 4 + z div 64) div 4 = y"
    and "(((y mod 16) * 4 + z div 64) mod 4) * 64 + z mod 64 = z"
    and "(x div 4) * 4 + ((x mod 4) * 16) div 16 = x"
    and "(((x mod 4) * 16 + y div 16) mod 16) * 16 + ((y mod 16) * 4) div 4 = y"
  using assms by (simp_all add: div_mult2_eq [symmetric])

lemma unat_byte: "unat (a :: byte) < 256"
  using unsigned_less [of a, where ?'a = nat] by simp

lemma a2b_base64_quad:
  assumes "v1 < 64" "v2 < 64" "v3 < 64" "v4 < 64"
  shows "a2b_base64 (b64_char v1 # b64_char v2 # b64_char v3 # b64_char v4 # cs) 0 l p out =
         a2b_base64 cs 0 0 0
           (out @ [of_nat (v1 * 4 + v2 div 16), of_nat ((v2 mod 16) * 16 + v3 div 4),
                   of_nat ((v3 mod 4) * 64 + v4)])"
  by (simp add: a2b_base64_char assms del: a2b_base64.simps(2))

lemma a2b_base64_pad2:
  assumes "v1 < 64" "v2 < 64"
  shows "a2b_base64 [b64_char v1, b64_char v2, CHR ''='', CHR ''=''] 0 l p out =
         Some (out @ [of_nat (v1 * 4 + v2 div 16)])"
  by (simp add: a2b_base64_char assms del: a2b_base64.simps(2)) simp

lemma a2b_base64_pad1:
  assumes "v1 < 64" "v2 < 64" "v3 < 64"
  shows "a2b_base64 [b64_char v1, b64_char v2, b64_char v3, CHR ''=''] 0 l p out =
         Some (out @ [of_nat (v1 * 4 + v2 div 16), of_nat ((v2 mod 16) * 16 + v3 div 4)])"
  by (simp add: a2b_base64_char assms del: a2b_base64.simps(2)) simp

lemma of_nat_unat_byte: "of_nat (unat a) = (a :: byte)"
  by simp

lemma a2b_base64_b64encode: "a2b_base64 (b64encode bs) 0 0 0 out = Some (out @ bs)"
proof (induction bs arbitrary: out rule: b64encode.induct)
  case 1
  show ?case by simp
next
  case (2 a)
  note b = sextet_bounds [OF unat_byte [of a] unat_byte [of a] unat_byte [of a]]
  note j = sextet_join(4) [OF unat_byte [of a] unat_byte [of a], of "unat a"]
  have "a2b_base64 (b64encode [a]) 0 0 0 out =
        Some (out @ [of_nat (unat a div 4 * 4 + (unat a mod 4 * 16) div 16)])"
    by (simp only: b64encode.simps a2b_base64_pad2 [OF b(1) b(3)])
  then show ?case by (simp only: j of_nat_unat_byte)
next
  case (3 a b)
  note bd = sextet_bounds [OF unat_byte [of a] unat_byte [of b] unat_byte [of b]]
  note j1 = sextet_join(1) [OF unat_byte [of b] unat_byte [of b], of "unat a"]
  note j2 = sextet_join(5) [OF unat_byte [of b] unat_byte [of b], of "unat a"]
  have "a2b_base64 (b64encode [a, b]) 0 0 0 out =
        Some (out @ [of_nat (unat a div 4 * 4 + (unat a mod 4 * 16 + unat b div 16) div 16),
                     of_nat ((unat a mod 4 * 16 + unat b div 16) mod 16 * 16 +
                             (unat b mod 16 * 4) div 4)])"
    by (simp only: b64encode.simps a2b_base64_pad1 [OF bd(1) bd(2) bd(5)])
  then show ?case by (simp only: j1 j2 of_nat_unat_byte)
next
  case (4 a b c r)
  note bd = sextet_bounds [OF unat_byte [of a] unat_byte [of b] unat_byte [of c]]
  note j1 = sextet_join(1) [OF unat_byte [of b] unat_byte [of c], of "unat a"]
  note j2 = sextet_join(2) [OF unat_byte [of b] unat_byte [of c], of "unat a"]
  note j3 = sextet_join(3) [OF unat_byte [of b] unat_byte [of c]]
  have "a2b_base64 (b64encode (a # b # c # r)) 0 0 0 out =
        a2b_base64 (b64encode r) 0 0 0
          (out @ [of_nat (unat a div 4 * 4 + (unat a mod 4 * 16 + unat b div 16) div 16),
                  of_nat ((unat a mod 4 * 16 + unat b div 16) mod 16 * 16 +
                          (unat b mod 16 * 4 + unat c div 64) div 4),
                  of_nat ((unat b mod 16 * 4 + unat c div 64) mod 4 * 64 + unat c mod 64)])"
    by (simp only: b64encode.simps append_Cons append_Nil
        a2b_base64_quad [OF bd(1) bd(2) bd(4) bd(6)])
  also have "\<dots> = a2b_base64 (b64encode r) 0 0 0 (out @ [a, b, c])"
    by (simp only: j1 j2 j3 of_nat_unat_byte)
  also have "\<dots> = Some ((out @ [a, b, c]) @ r)" by (rule "4.IH")
  finally show ?case by simp
qed

lemma b64encode_chars: "set (b64encode bs) \<subseteq> insert (CHR ''='') (set b64_alphabet)"
proof (induction bs rule: b64encode.induct)
  case 1
  show ?case by simp
next
  case (2 a)
  note b = sextet_bounds [OF unat_byte [of a] unat_byte [of a] unat_byte [of a]]
  show ?case using b64_char_facts(2) [OF b(1)] b64_char_facts(2) [OF b(3)] by simp
next
  case (3 a b)
  note bd = sextet_bounds [OF unat_byte [of a] unat_byte [of b] unat_byte [of b]]
  show ?case
    using b64_char_facts(2) [OF bd(1)] b64_char_facts(2) [OF bd(2)] b64_char_facts(2) [OF bd(5)]
    by simp
next
  case (4 a b c r)
  note bd = sextet_bounds [OF unat_byte [of a] unat_byte [of b] unat_byte [of c]]
  show ?case
    using b64_char_facts(2) [OF bd(1)] b64_char_facts(2) [OF bd(2)] b64_char_facts(2) [OF bd(4)]
      b64_char_facts(2) [OF bd(6)] "4.IH"
    by simp
qed

lemma b64encode_no_bar: "CHR ''|'' \<notin> set (b64encode bs)"
  using b64encode_chars [of bs] b64_alphabet_facts(4) by auto

lemma b64decode_b64encode: "b64decode (b64encode bs) = Some bs"
proof -
  have "(of_char c :: nat) < 128" if "c \<in> set (b64encode bs)" for c
  proof (cases "c = CHR ''=''")
    case True
    then show ?thesis by simp
  next
    case False
    with that b64encode_chars [of bs] have "c \<in> set b64_alphabet" by auto
    with b64_alphabet_facts(5) show ?thesis by (simp add: list_all_iff)
  qed
  then have "is_ascii (b64encode bs)"
    by (simp add: is_ascii_def list_all_iff)
  then show ?thesis
    using a2b_base64_b64encode [of bs "[]"] by (simp add: b64decode_def)
qed

lemma gocont_frame_index: "gocont_index (gocont_frame i) = Some i"
proof -
  have 1: "gocont_frame i = ''MESHZ_GOCONT'' @ CHR ''|'' # str_int i"
    by (simp add: gocont_frame_def)
  have 2: "split_bar (''MESHZ_GOCONT'' @ CHR ''|'' # str_int i) = ''MESHZ_GOCONT'' # split_bar (str_int i)"
    by (rule split_bar_field) simp
  have 3: "split_bar (str_int i) = [str_int i]"
    by (rule split_bar_single [OF str_int_no_bar])
  have "split_bar (gocont_frame i) = [''MESHZ_GOCONT'', str_int i]"
    by (simp only: 1 2 3)
  then show ?thesis by (simp add: gocont_index_def nth_opt_def py_int_str_int)
qed

text \<open>
  C8. For every well-formed chunk frame (index \<open>i\<close>, payload \<open>p\<close>), whatever the buffer holds
  and whatever \<open>i\<close> is: after the delivery the buffer has \<open>p\<close> at \<open>i\<close> and the frame
  \<^verbatim>\<open>MESHZ_GOCONT|i\<close> (the text \<^verbatim>\<open>MESHZ_GOCONT|\<close> followed by the decimal digits of \<open>i\<close>, which
  the sender's branch for chunk acknowledgments reads back as \<open>i\<close>) has been sent to the
  frame's sender; a second delivery leaves the buffer as it is and sends the same frame once
  more.
\<close>

theorem C8_chunk_delivery_idempotent:
  assumes "startswith msg ''ZD|''" and "parse_data msg = Some (i, p)"
  shows "map_of (receive_buffer (on_packet_received now (text_packet sender msg) s)) i = Some p \<and>
         sent (on_packet_received now (text_packet sender msg) s) =
           sent s @ [(''MESHZ_GOCONT|'' @ str_int i, sender)] \<and>
         receive_buffer (on_packet_received now' (text_packet sender msg)
                          (on_packet_received now (text_packet sender msg) s)) =
           receive_buffer (on_packet_received now (text_packet sender msg) s) \<and>
         sent (on_packet_received now' (text_packet sender msg)
                (on_packet_received now (text_packet sender msg) s)) =
           sent s @ [(''MESHZ_GOCONT|'' @ str_int i, sender), (''MESHZ_GOCONT|'' @ str_int i, sender)] \<and>
         startswith (''MESHZ_GOCONT|'' @ str_int i) ''MESHZ_GOCONT|'' \<and>
         gocont_index (''MESHZ_GOCONT|'' @ str_int i) = Some i"
proof -
  have g: "gocont_frame i = ''MESHZ_GOCONT|'' @ str_int i" by (simp add: gocont_frame_def)
  have a: "startswith (''MESHZ_GOCONT|'' @ str_int i) ''MESHZ_GOCONT|''"
    by (simp add: startswith_def)
  have b: "gocont_index (''MESHZ_GOCONT|'' @ str_int i) = Some i"
    using gocont_frame_index [of i] by (simp only: g)
  have c: "map_of (receive_buffer (on_packet_received now (text_packet sender msg) s)) i = Some p \<and>
         sent (on_packet_received now (text_packet sender msg) s) =
           sent s @ [(gocont_frame i, sender)] \<and>
         receive_buffer (on_packet_received now' (text_packet sender msg)
                          (on_packet_received now (text_packet sender msg) s)) =
           receive_buffer (on_packet_received now (text_packet sender msg) s) \<and>
         sent (on_packet_received now' (text_packet sender msg)
                (on_packet_received now (text_packet sender msg) s)) =
           sent s @ [(gocont_frame i, sender), (gocont_frame i, sender)]"
    by (simp add: on_packet_data [OF assms(1)] on_data_buffer [OF assms(2)] AList.update_conv')
  show ?thesis using a b c by (simp only: g)
qed

theorem C8_chunk_delivery_idempotent_witness:
  "map_of (receive_buffer (received [''ZD|1|QUJD''])) 1 = Some [65, 66, 67] \<and>
   receive_buffer (received [''ZD|1|QUJD'', ''ZD|1|QUJD'']) = receive_buffer (received [''ZD|1|QUJD'']) \<and>
   sent (received [''ZD|1|QUJD'']) = [(''MESHZ_GOCONT|1'', Some ''!b2'')] \<and>
   sent (received [''ZD|1|QUJD'', ''ZD|1|QUJD'']) =
     [(''MESHZ_GOCONT|1'', Some ''!b2''), (''MESHZ_GOCONT|1'', Some ''!b2'')] \<and>
   gocont_index ''MESHZ_GOCONT|1'' = Some 1"
proof -
  have s: "startswith ''ZD|1|QUJD'' ''ZD|''" by (simp add: startswith_def)
  have i: "sent (initial ''/home/u'' [] flat_downloads) = []" by (simp add: sent_def initial_def)
  have d: "str_int 1 = ''1''"
    by (simp add: str_int_def digits_of.simps digit_char_def dec_digits_def)
  show ?thesis
    using C8_chunk_delivery_idempotent [OF s parse_data_examples(1), of 0 "Some ''!b2''"
        "initial ''/home/u'' [] flat_downloads" 0]
    by (simp add: received_def i d)
qed

subsection \<open>Round trip\<close>

lemma chunk_frame_parts:
  "split_bar (chunk_frame i raw) = [''ZD'', str_int i, b64encode raw]"
proof -
  let ?rest = "str_int i @ CHR ''|'' # b64encode raw"
  have 1: "chunk_frame i raw = ''ZD'' @ CHR ''|'' # ?rest"
    by (simp add: chunk_frame_def)
  have 2: "split_bar (''ZD'' @ CHR ''|'' # ?rest) = ''ZD'' # split_bar ?rest"
    by (rule split_bar_field) simp
  have 3: "split_bar ?rest = str_int i # split_bar (b64encode raw)"
    by (rule split_bar_field [OF str_int_no_bar])
  have 4: "split_bar (b64encode raw) = [b64encode raw]"
    by (rule split_bar_single [OF b64encode_no_bar])
  show ?thesis by (simp only: 1 2 3 4)
qed

lemma parse_data_chunk_frame: "parse_data (chunk_frame i raw) = Some (i, raw)"
  by (simp add: parse_data_def chunk_frame_parts nth_opt_def py_int_str_int b64decode_b64encode)

lemma startswith_chunk_frame: "startswith (chunk_frame i raw) ''ZD|''"
  by (simp add: chunk_frame_def startswith_def)

lemma upto_int_nat: "[1 .. int n] = map int [1 ..< Suc n]"
proof (induction n)
  case 0
  show ?case by simp
next
  case (Suc n)
  have "[1 .. int (Suc n)] = [1 .. int (Suc n) - 1] @ [int (Suc n)]"
    by (rule upto_rec2) simp
  then show ?case using Suc by simp
qed

lemma read_chunks_take:
  "concat (map (\<lambda>k. read_chunk F (int k)) [1 ..< Suc n]) = take (120 * n) F"
proof (induction n)
  case 0
  show ?case by simp
next
  case (Suc n)
  have r: "read_chunk F (int (Suc n)) = take 120 (drop (120 * n) F)"
    by (simp add: read_chunk_def CHUNK_SIZE_def nat_mult_distrib mult.commute)
  have "take (120 * Suc n) F = take (120 * n + 120) F" by (simp add: add.commute)
  also have "\<dots> = take (120 * n) F @ take 120 (drop (120 * n) F)"
    by (rule take_add)
  finally have t: "take (120 * Suc n) F = take (120 * n) F @ take 120 (drop (120 * n) F)" .
  have "concat (map (\<lambda>k. read_chunk F (int k)) [1 ..< Suc (Suc n)]) =
        concat (map (\<lambda>k. read_chunk F (int k)) [1 ..< Suc n]) @ read_chunk F (int (Suc n))"
    by simp
  then show ?case by (simp only: Suc r t)
qed

lemma read_chunks_whole:
  assumes "0 \<le> N" and "int (length F) \<le> CHUNK_SIZE * N"
  shows "concat (map (read_chunk F) [1 .. N]) = F"
proof -
  define n where "n = nat N"
  have n: "N = int n" using assms(1) by (simp add: n_def)
  have "length F \<le> 120 * n" using assms(2) by (simp add: n CHUNK_SIZE_def)
  then have "take (120 * n) F = F" by simp
  then show ?thesis
    using read_chunks_take [of F n] by (simp add: n upto_int_nat comp_def)
qed

lemma write_chunks_all:
  assumes "\<forall>k \<in> set ks. map_of buf k = Some (g k)"
  shows "write_chunks buf ks acc = (acc @ concat (map g ks), True)"
  using assms by (induction ks arbitrary: acc) simp_all

lemma deliver_step:
  "receive_buffer (deliver now sender F i s) = AList.update i (read_chunk F i) (receive_buffer s)"
  "receiving_total_chunks (deliver now sender F i s) = receiving_total_chunks s"
  "save_path (deliver now sender F i s) = save_path s"
  "writable (deliver now sender F i s) = writable s"
  "disk (deliver now sender F i s) =
     (if int (length (AList.update i (read_chunk F i) (receive_buffer s))) = receiving_total_chunks s
         \<and> writable s (save_path s)
      then AList.update (save_path s)
             (fst (write_chunks (AList.update i (read_chunk F i) (receive_buffer s))
                     [1 .. receiving_total_chunks s] []))
             (disk s)
      else disk s)"
  by (simp_all add: deliver_def on_packet_data [OF startswith_chunk_frame] on_data_parsed
      parse_data_chunk_frame Let_def save_received_file_def hide_progress_def log_message_def
      emit_def save_path_def split: prod.splits)

lemma buffer_keys_card:
  assumes "distinct (map fst buf)"
  shows "card (fst ` set buf) = length buf"
  using distinct_card [OF assms] by simp

lemma buffer_complete:
  fixes buf :: "(int \<times> byte list) list"
  assumes "distinct (map fst buf)" and "fst ` set buf \<subseteq> {1 .. N}" and "0 \<le> N"
  shows "fst ` set buf = {1 .. N} \<longleftrightarrow> int (length buf) = N"
proof
  assume "fst ` set buf = {1 .. N}"
  then have "card {1 .. N} = length buf" using buffer_keys_card [OF assms(1)] by simp
  then show "int (length buf) = N" using assms(3) by simp
next
  assume "int (length buf) = N"
  then have "card (fst ` set buf) = card {1 .. N}"
    using buffer_keys_card [OF assms(1)] by simp
  then show "fst ` set buf = {1 .. N}"
    using assms(2) by (intro card_subset_eq) simp_all
qed

lemma deliver_inv:
  assumes N: "1 \<le> N" "int (length F) \<le> CHUNK_SIZE * N"
    and tot: "receiving_total_chunks s = N"
    and dist: "distinct (map fst (receive_buffer s))"
    and vals: "\<forall>k v. map_of (receive_buffer s) k = Some v \<longrightarrow> 1 \<le> k \<and> k \<le> N \<and> v = read_chunk F k"
    and i: "1 \<le> i" "i \<le> N"
    and wr: "writable s (save_path s)"
  shows "receiving_total_chunks (deliver now sender F i s) = N"
    and "save_path (deliver now sender F i s) = save_path s"
    and "distinct (map fst (receive_buffer (deliver now sender F i s)))"
    and "\<forall>k v. map_of (receive_buffer (deliver now sender F i s)) k = Some v \<longrightarrow>
               1 \<le> k \<and> k \<le> N \<and> v = read_chunk F k"
    and "fst ` set (receive_buffer (deliver now sender F i s)) = insert i (fst ` set (receive_buffer s))"
    and "fst ` set (receive_buffer (deliver now sender F i s)) = {1 .. N} \<longrightarrow>
           map_of (disk (deliver now sender F i s)) (save_path s) = Some F"
    and "writable (deliver now sender F i s) (save_path (deliver now sender F i s))"
proof -
  let ?buf = "AList.update i (read_chunk F i) (receive_buffer s)"
  let ?s = "deliver now sender F i s"
  show "receiving_total_chunks ?s = N" by (simp add: deliver_step tot)
  show "save_path ?s = save_path s" by (simp add: deliver_step)
  show d: "distinct (map fst (receive_buffer ?s))"
    by (simp add: deliver_step distinct_update dist)
  show v: "\<forall>k v. map_of (receive_buffer ?s) k = Some v \<longrightarrow> 1 \<le> k \<and> k \<le> N \<and> v = read_chunk F k"
    using vals i by (simp add: deliver_step update_conv')
  show "fst ` set (receive_buffer ?s) = insert i (fst ` set (receive_buffer s))"
    by (simp add: deliver_step dom_update)
  show "fst ` set (receive_buffer ?s) = {1 .. N} \<longrightarrow> map_of (disk ?s) (save_path s) = Some F"
  proof
    assume full: "fst ` set (receive_buffer ?s) = {1 .. N}"
    have sub: "fst ` set (receive_buffer ?s) \<subseteq> {1 .. N}" using full by simp
    have len: "int (length ?buf) = N"
      using buffer_complete [OF d sub] N(1) full by (simp add: deliver_step)
    have "\<forall>k \<in> set [1 .. N]. map_of ?buf k = Some (read_chunk F k)"
    proof
      fix k assume "k \<in> set [1 .. N]"
      then have "k \<in> fst ` set (receive_buffer ?s)" using full by simp
      then have "k \<in> dom (map_of (receive_buffer ?s))" by (simp add: dom_map_of_conv_image_fst)
      then obtain w where w: "map_of (receive_buffer ?s) k = Some w" by blast
      with v have "w = read_chunk F k" by blast
      with w show "map_of ?buf k = Some (read_chunk F k)" by (simp add: deliver_step)
    qed
    then have "write_chunks ?buf [1 .. N] [] = ([] @ concat (map (read_chunk F) [1 .. N]), True)"
      by (rule write_chunks_all)
    then have "fst (write_chunks ?buf [1 .. N] []) = F"
      using read_chunks_whole [of N F] N by simp
    then show "map_of (disk ?s) (save_path s) = Some F"
      using len wr by (simp add: deliver_step tot update_conv')
  qed
  show "writable ?s (save_path ?s)" using wr by (simp add: deliver_step)
qed

lemma deliver_fold:
  assumes "1 \<le> N" "int (length F) \<le> CHUNK_SIZE * N"
    and "receiving_total_chunks s = N"
    and "distinct (map fst (receive_buffer s))"
    and "\<forall>k v. map_of (receive_buffer s) k = Some v \<longrightarrow> 1 \<le> k \<and> k \<le> N \<and> v = read_chunk F k"
    and "set order \<subseteq> {1 .. N}"
    and "order \<noteq> []"
    and "writable s (save_path s)"
  shows "fst ` set (receive_buffer (fold (deliver now sender F) order s)) =
           fst ` set (receive_buffer s) \<union> set order \<and>
         (fst ` set (receive_buffer (fold (deliver now sender F) order s)) = {1 .. N} \<longrightarrow>
            map_of (disk (fold (deliver now sender F) order s)) (save_path s) = Some F)"
  using assms(3-8)
proof (induction order arbitrary: s)
  case Nil
  then show ?case by simp
next
  case (Cons i order)
  have i: "1 \<le> i" "i \<le> N" using Cons.prems(4) by simp_all
  note st = deliver_inv [OF assms(1,2) Cons.prems(1,2,3) i Cons.prems(6), of now sender]
  show ?case
  proof (cases "order = []")
    case True
    show ?thesis using st(5,6) by (simp add: True)
  next
    case False
    have "set order \<subseteq> {1 .. N}" using Cons.prems(4) by simp
    from Cons.IH [OF st(1) st(3) st(4) this False st(7)]
    show ?thesis by (simp add: st(2) st(5))
  qed
qed

lemma req_frame_parts:
  assumes "CHR ''|'' \<notin> set name"
  shows "split_bar (req_frame name fsize n) = [''MESHZ_REQ'', name, str_int fsize, str_int n]"
proof -
  let ?r2 = "str_int fsize @ CHR ''|'' # str_int n"
  let ?r1 = "name @ CHR ''|'' # ?r2"
  have 1: "req_frame name fsize n = ''MESHZ_REQ'' @ CHR ''|'' # ?r1"
    by (simp add: req_frame_def)
  have 2: "split_bar (''MESHZ_REQ'' @ CHR ''|'' # ?r1) = ''MESHZ_REQ'' # split_bar ?r1"
    by (rule split_bar_field) simp
  have 3: "split_bar ?r1 = name # split_bar ?r2"
    by (rule split_bar_field [OF assms])
  have 4: "split_bar ?r2 = str_int fsize # split_bar (str_int n)"
    by (rule split_bar_field [OF str_int_no_bar])
  have 5: "split_bar (str_int n) = [str_int n]"
    by (rule split_bar_single [OF str_int_no_bar])
  show ?thesis by (simp only: 1 2 3 4 5)
qed

lemma on_packet_req_frame:
  assumes "CHR ''|'' \<notin> set name"
  shows "on_packet_received now (text_packet sender (req_frame name fsize n)) s =
     s\<lparr>receiving_file_name := Some name, receiving_total_chunks := n, receive_buffer := [],
       trace := trace s @ [LogMessage (LogReq sender name), UpdateProgress 0 n Receiving,
                           SendText ''MESHZ_ACK'' sender]\<rparr>"
proof -
  have s: "startswith (req_frame name fsize n) ''MESHZ_REQ''"
    by (simp add: req_frame_def startswith_def)
  have "on_packet_received now (text_packet sender (req_frame name fsize n)) s =
        on_req sender (req_frame name fsize n) s"
    using s by (simp add: on_packet_received_def text_packet_def)
  also have "\<dots> = s\<lparr>receiving_file_name := Some name, receiving_total_chunks := n, receive_buffer := [],
       trace := trace s @ [LogMessage (LogReq sender name), UpdateProgress 0 n Receiving,
                           SendText ''MESHZ_ACK'' sender]\<rparr>"
    by (simp add: on_req_def req_frame_parts [OF assms] nth_opt_def py_int_str_int Let_def
        log_message_def update_progress_def sendText_def emit_def)
  finally show ?thesis .
qed

text \<open>
  C2. Round trip. The frame the sender emits for chunk \<open>i\<close> carries the bytes
  \<open>[(i - 1) * 120, i * 120)\<close> of the file \<open>F\<close> (fewer at the end of the file). If a receiver
  whose buffer is empty, that expects \<open>N \<ge> 1\<close> chunks, where \<open>N\<close> chunks cover the file, and
  whose output file can be opened for writing, handles the frames of the chunks
  \<open>1, ..., N\<close> in any order (repetitions allowed), then the output file holds exactly \<open>F\<close>.
\<close>

theorem C2_round_trip:
  assumes "receive_buffer r = []" and "receiving_total_chunks r = N"
    and "1 \<le> N" and "int (length F) \<le> CHUNK_SIZE * N"
    and "set order = {1 .. N}"
    and "writable r (save_path r)"
    and "readable t F" and "1 \<le> current_chunk t"
  shows "sent (send_next_chunk t) =
           sent t @ [(chunk_frame (current_chunk t) (read_chunk F (current_chunk t)),
                      target_node_id t)] \<and>
         map_of (disk (fold (deliver now sender F) order r)) (save_path r) = Some F"
proof -
  have a: "sent (send_next_chunk t) =
           sent t @ [(chunk_frame (current_chunk t) (read_chunk F (current_chunk t)),
                      target_node_id t)]"
    by (simp add: send_next_chunk_readable [OF assms(7,8)] sent_def frames_of_append)
  have ne: "order \<noteq> []" using assms(3,5) by auto
  have sub: "set order \<subseteq> {1 .. N}" using assms(5) by simp
  have d: "distinct (map fst (receive_buffer r))" by (simp add: assms(1))
  have v: "\<forall>k v. map_of (receive_buffer r) k = Some v \<longrightarrow> 1 \<le> k \<and> k \<le> N \<and> v = read_chunk F k"
    by (simp add: assms(1))
  from deliver_fold [OF assms(3,4,2) d v sub ne assms(6), of now sender]
  have "map_of (disk (fold (deliver now sender F) order r)) (save_path r) = Some F"
    by (simp add: assms(1,5))
  with a show ?thesis by blast
qed

theorem C2_round_trip_witness:
  "map_of (disk (fold (deliver 0 (Some ''!a1'') (replicate 300 7)) [3, 1, 2]
            (on_packet_received 0 (text_packet (Some ''!a1'') (req_frame ''f.bin'' 300 3))
               (initial ''/home/u'' [] flat_downloads))))
     ''/home/u/Downloads/meshz_f.bin'' = Some (replicate 300 7) \<and>
   total_chunks (started (replicate 300 7)) = 3"
proof -
  let ?F = "replicate 300 (7 :: byte)"
  let ?r = "on_packet_received 0 (text_packet (Some ''!a1'') (req_frame ''f.bin'' 300 3))
               (initial ''/home/u'' [] flat_downloads)"
  have nb: "CHR ''|'' \<notin> set ''f.bin''" by simp
  note r = on_packet_req_frame [OF nb, of 0 "Some ''!a1''" 300 3 "initial ''/home/u'' [] flat_downloads"]
  have h1: "receive_buffer ?r = []" by (simp add: r)
  have h2: "receiving_total_chunks ?r = 3" by (simp add: r)
  have h3: "(1 :: int) \<le> 3" by simp
  have h4: "int (length ?F) \<le> CHUNK_SIZE * 3" by (simp add: CHUNK_SIZE_def)
  have h5: "set [3, 1, 2] = {1 .. 3 :: int}" by auto
  have h7: "1 \<le> current_chunk (started ?F)" by (simp add: started_fields)
  have p: "save_path ?r = ''/home/u/Downloads/meshz_f.bin''"
    by (simp only: r) (simp add: save_path_def initial_def)
  have "writable ?r = flat_downloads" by (simp only: r) (simp add: initial_def)
  then have h6: "writable ?r (save_path ?r)"
    by (simp only: p) (simp add: flat_downloads_def startswith_def)
  from C2_round_trip [OF h1 h2 h3 h4 h5 h6 started_fields(1) h7, of 0 "Some ''!a1''"]
  have "map_of (disk (fold (deliver 0 (Some ''!a1'') ?F) [3, 1, 2] ?r)) (save_path ?r) = Some ?F"
    by blast
  then have "map_of (disk (fold (deliver 0 (Some ''!a1'') ?F) [3, 1, 2] ?r))
      ''/home/u/Downloads/meshz_f.bin'' = Some ?F"
    by (simp only: p)
  moreover have "total_chunks (started ?F) = 3" by (simp add: started_fields)
  ultimately show ?thesis by blast
qed

end
